theory Spec2Isabelle
  imports Main "HOL-Library.Sublist" "HOL-Library.List_Lexorder" "HOL-Library.Product_Lexorder"
    "HOL-Library.Multiset"
begin

section \<open>Strings\<close>

text \<open>
  A Python \<open>str\<close> is a sequence of Unicode code points, and every operation of the
  program (regular expressions, \<open>strip\<close>, \<open>isdigit\<close>, slicing, comparison) works on
  code points. A string is therefore a list of code points, each a natural number.
  The literals of the source are written by their code points.
\<close>

type_synonym ustr = "nat list"

definition in_ranges :: "nat \<Rightarrow> (nat \<times> nat) list \<Rightarrow> bool" where
  "in_ranges c rs = list_ex (\<lambda>(lo, hi). lo \<le> c \<and> c \<le> hi) rs"

text \<open>
  The characters that \<open>str.isspace\<close>, \<open>str.strip\<close> and the class \<open>\s\<close> of \<open>re\<close>
  take as whitespace (CPython, Unicode 14).
\<close>

definition space_ranges :: "(nat \<times> nat) list" where
  "space_ranges =
     [(9, 13), (28, 32), (133, 133), (160, 160), (5760, 5760), (8192, 8202),
      (8232, 8233), (8239, 8239), (8287, 8287), (12288, 12288)]"

definition isspace_chr :: "nat \<Rightarrow> bool" where
  "isspace_chr c = in_ranges c space_ranges"

text \<open>
  The decimal digits (general category Nd): the class \<open>\d\<close> of \<open>re\<close> on a \<open>str\<close>
  pattern, and the characters \<open>int\<close> accepts. Every range is a run of the digits
  0 to 9, so the value of a digit is its offset in its range modulo 10.
\<close>

definition decimal_ranges :: "(nat \<times> nat) list" where
  "decimal_ranges =
     [(48, 57), (1632, 1641), (1776, 1785), (1984, 1993), (2406, 2415), (2534, 2543),
      (2662, 2671), (2790, 2799), (2918, 2927), (3046, 3055), (3174, 3183), (3302, 3311),
      (3430, 3439), (3558, 3567), (3664, 3673), (3792, 3801), (3872, 3881), (4160, 4169),
      (4240, 4249), (6112, 6121), (6160, 6169), (6470, 6479), (6608, 6617), (6784, 6793),
      (6800, 6809), (6992, 7001), (7088, 7097), (7232, 7241), (7248, 7257), (42528, 42537),
      (43216, 43225), (43264, 43273), (43472, 43481), (43504, 43513), (43600, 43609),
      (44016, 44025), (65296, 65305), (66720, 66729), (68912, 68921), (69734, 69743),
      (69872, 69881), (69942, 69951), (70096, 70105), (70384, 70393), (70736, 70745),
      (70864, 70873), (71248, 71257), (71360, 71369), (71472, 71481), (71904, 71913),
      (72016, 72025), (72784, 72793), (73040, 73049), (73120, 73129), (92768, 92777),
      (92864, 92873), (93008, 93017), (120782, 120831), (123200, 123209), (123632, 123641),
      (125264, 125273), (130032, 130041)]"

definition isdecimal_chr :: "nat \<Rightarrow> bool" where
  "isdecimal_chr c = in_ranges c decimal_ranges"

text \<open>
  The characters of numeric type Digit that are no decimal digits (superscripts,
  subscripts, circled digits and the like): \<open>str.isdigit\<close> accepts them, \<open>int\<close>
  refuses them.
\<close>

definition other_digit_ranges :: "(nat \<times> nat) list" where
  "other_digit_ranges =
     [(178, 179), (185, 185), (4969, 4977), (6618, 6618), (8304, 8304), (8308, 8313),
      (8320, 8329), (9312, 9320), (9332, 9340), (9352, 9360), (9450, 9450), (9461, 9469),
      (9471, 9471), (10102, 10110), (10112, 10120), (10122, 10130), (68160, 68163),
      (69216, 69224), (69714, 69722), (127232, 127242)]"

definition isdigit_chr :: "nat \<Rightarrow> bool" where
  "isdigit_chr c = (isdecimal_chr c \<or> in_ranges c other_digit_ranges)"

text \<open>\<open>s.strip()\<close>: leading and trailing whitespace removed.\<close>

definition strip :: "ustr \<Rightarrow> ustr" where
  "strip s = rev (dropWhile isspace_chr (rev (dropWhile isspace_chr s)))"

section \<open>Regular expressions\<close>

text \<open>
  The part of Python's \<open>re\<close> that the patterns of the source use: literals, the classes
  \<open>\d\<close> and \<open>\s\<close>, \<open>.\<close>, character sets and negated sets, greedy \<open>+\<close> and \<open>*\<close> on a
  single character, sequence, alternation, \<open>?\<close>, capturing groups, \<open>^\<close> and \<open>$\<close>.
  \<open>Str w\<close> is a run of literal characters.
\<close>

datatype citem = Lit nat | Digit | Space

datatype atom = Dot | OneOf "citem list" | NoneOf "citem list"

datatype re =
    Atom atom
  | Rep nat atom
  | Seq re re
  | Alt re re
  | Opt re
  | Grp nat re
  | Str ustr
  | Bol
  | Eol

fun in_citem :: "nat \<Rightarrow> citem \<Rightarrow> bool" where
  "in_citem c (Lit d) = (c = d)"
| "in_citem c Digit = isdecimal_chr c"
| "in_citem c Space = isspace_chr c"

text \<open>Without the flag DOTALL, \<open>.\<close> is any character but the line feed.\<close>

fun atom_ok :: "atom \<Rightarrow> nat \<Rightarrow> bool" where
  "atom_ok Dot c = (c \<noteq> 10)"
| "atom_ok (OneOf cs) c = list_ex (in_citem c) cs"
| "atom_ok (NoneOf cs) c = (\<not> list_ex (in_citem c) cs)"

text \<open>
  A backtracking matcher. \<open>ms r bos s\<close> lists every way \<open>r\<close> matches a prefix of \<open>s\<close>,
  in the order in which the engine tries them: the number of characters consumed and
  the groups captured, the most recent capture last. \<open>bos\<close> says that \<open>s\<close> starts at
  the beginning of the subject string. \<open>Rep k a\<close> is the greedy repetition of \<open>a\<close> at
  least \<open>k\<close> times: the longest run first, then each shorter one. Without MULTILINE,
  \<open>$\<close> matches at the end of the subject and before a line feed that ends it.
\<close>

type_synonym caps = "(nat \<times> ustr) list"

fun ms :: "re \<Rightarrow> bool \<Rightarrow> ustr \<Rightarrow> (nat \<times> caps) list" where
  "ms (Atom a) bos s =
     (case s of [] \<Rightarrow> [] | c # _ \<Rightarrow> if atom_ok a c then [(1, [])] else [])"
| "ms (Rep k a) bos s =
     map (\<lambda>i. (i, [])) (rev [k ..< Suc (length (takeWhile (atom_ok a) s))])"
| "ms (Seq p q) bos s =
     concat (map (\<lambda>(n1, c1).
               map (\<lambda>(n2, c2). (n1 + n2, c1 @ c2)) (ms q (bos \<and> n1 = 0) (drop n1 s)))
             (ms p bos s))"
| "ms (Alt p q) bos s = ms p bos s @ ms q bos s"
| "ms (Opt p) bos s = ms p bos s @ [(0, [])]"
| "ms (Grp g p) bos s = map (\<lambda>(n, c). (n, c @ [(g, take n s)])) (ms p bos s)"
| "ms (Str w) bos s = (if prefix w s then [(length w, [])] else [])"
| "ms Bol bos s = (if bos then [(0, [])] else [])"
| "ms Eol bos s = (if s = [] \<or> s = [10] then [(0, [])] else [])"

text \<open>\<open>re.match\<close>: the first match at the beginning of the string, if any.\<close>

definition re_match :: "re \<Rightarrow> ustr \<Rightarrow> (nat \<times> caps) option" where
  "re_match r s = (case ms r True s of [] \<Rightarrow> None | m # _ \<Rightarrow> Some m)"

text \<open>\<open>m.group(g)\<close> of a group that took part in the match; None when it did not.\<close>

definition group :: "caps \<Rightarrow> nat \<Rightarrow> ustr option" where
  "group c g = map_of (rev c) g"

text \<open>
  \<open>re.findall\<close>: the subject is scanned from left to right; at each position the first
  match of the matcher counts, its groups are recorded and the scan goes on where the
  match ended; without a match the scan moves one character on. Every pattern of the
  source consumes at least one character when it matches; after an empty match the
  scan moves one character on as well.
\<close>

function findall_from :: "re \<Rightarrow> bool \<Rightarrow> ustr \<Rightarrow> caps list" where
  "findall_from r bos s =
     (case ms r bos s of
        [] \<Rightarrow> (case s of [] \<Rightarrow> [] | _ # s' \<Rightarrow> findall_from r False s')
      | (n, c) # _ \<Rightarrow>
          c # (case s of [] \<Rightarrow> [] | _ # s' \<Rightarrow> findall_from r False (drop (n - 1) s')))"
  by pat_completeness auto
termination
  by (relation "measure (\<lambda>(r, bos, s). length s)") auto

text \<open>
  For a pattern with two groups \<open>findall\<close> returns the pairs of the two groups, with
  the empty string for a group that took no part in the match.
\<close>

definition group_str :: "caps \<Rightarrow> nat \<Rightarrow> ustr" where
  "group_str c g = (case group c g of None \<Rightarrow> [] | Some v \<Rightarrow> v)"

definition findall :: "re \<Rightarrow> ustr \<Rightarrow> (ustr \<times> ustr) list" where
  "findall r s = map (\<lambda>c. (group_str c 1, group_str c 2)) (findall_from r True s)"

text \<open>
  The results of a sequence, written by recursion on the results of its first part:
  the equations by which the matcher is run on a given string.
\<close>

fun shift :: "nat \<Rightarrow> caps \<Rightarrow> (nat \<times> caps) list \<Rightarrow> (nat \<times> caps) list" where
  "shift n1 c1 [] = []"
| "shift n1 c1 ((n2, c2) # ys) = (n1 + n2, c1 @ c2) # shift n1 c1 ys"

fun seqr :: "(nat \<times> caps) list \<Rightarrow> re \<Rightarrow> bool \<Rightarrow> ustr \<Rightarrow> (nat \<times> caps) list" where
  "seqr [] q b s = []"
| "seqr ((n1, c1) # xs) q b s = shift n1 c1 (ms q (b \<and> n1 = 0) (drop n1 s)) @ seqr xs q b s"

text \<open>A pattern without a capturing group.\<close>

fun grp_free :: "re \<Rightarrow> bool" where
  "grp_free (Grp g p) = False"
| "grp_free (Seq p q) = (grp_free p \<and> grp_free q)"
| "grp_free (Alt p q) = (grp_free p \<and> grp_free q)"
| "grp_free (Opt p) = grp_free p"
| "grp_free r = True"

section \<open>Channel classifier\<close>

text \<open>The prefix of an individual channel: U+500B, U+4EBA, underscore.\<close>

definition individual_prefix :: ustr where
  "individual_prefix = [20491, 20154, 95]"

text \<open>\<^verbatim>\<open>INDIVIDUAL_CHANNEL_PATTERN = re.compile(r"^<prefix>(.+)$")\<close>\<close>

definition INDIVIDUAL_CHANNEL_PATTERN :: re where
  "INDIVIDUAL_CHANNEL_PATTERN =
     Seq Bol (Seq (Str individual_prefix) (Seq (Grp 1 (Rep 1 Dot)) Eol))"

text \<open>
  \<^verbatim>\<open>match = self.INDIVIDUAL_CHANNEL_PATTERN.match(channel_name)
  if match: return match.group(1)
  return None\<close>
\<close>

definition extract_person_name :: "ustr \<Rightarrow> ustr option" where
  "extract_person_name channel_name =
     (case re_match INDIVIDUAL_CHANNEL_PATTERN channel_name of
        None \<Rightarrow> None
      | Some (n, c) \<Rightarrow> group c 1)"

section \<open>KPI text extractor\<close>

text \<open>
  The number with its optional unit, shared by the three patterns:
  \<^verbatim>\<open>\d+(?:\.\d+)?(?:%|U+4EF6|U+5186|U+4EBA|U+56DE)?\<close>
\<close>

definition number_re :: re where
  "number_re =
     Seq (Rep 1 (OneOf [Digit]))
       (Seq (Opt (Seq (Str [46]) (Rep 1 (OneOf [Digit]))))
            (Opt (Alt (Str [37]) (Alt (Str [20214]) (Alt (Str [20870])
                 (Alt (Str [20154]) (Str [22238])))))))"

text \<open>
  \<^verbatim>\<open>([^\s:U+FF1A]+)[:\sU+FF1A]+(number)\<close>: the generic labelled value.
\<close>

definition pattern1 :: re where
  "pattern1 =
     Seq (Grp 1 (Rep 1 (NoneOf [Space, Lit 58, Lit 65306])))
       (Seq (Rep 1 (OneOf [Lit 58, Space, Lit 65306]))
            (Grp 2 number_re))"

text \<open>
  \<^verbatim>\<open>U+3010([^U+3011]+)U+3011\s*(number)\<close>: the bracketed label.
\<close>

definition pattern2 :: re where
  "pattern2 =
     Seq (Str [12304])
       (Seq (Grp 1 (Rep 1 (NoneOf [Lit 12305])))
         (Seq (Str [12305])
           (Seq (Rep 0 (OneOf [Space]))
                (Grp 2 number_re))))"

text \<open>
  \<^verbatim>\<open>(k1|k2|k3|k4|k5|k6)[U+6570 U+4EF6 U+7387]?\s*[:\sU+FF1A]*(number)\<close>: one of six
  keywords, written here by their code points.
\<close>

definition pattern3 :: re where
  "pattern3 =
     Seq (Grp 1 (Alt (Str [22770, 19978]) (Alt (Str [22865, 32004]) (Alt (Str [12450, 12509])
               (Alt (Str [26550, 38651]) (Alt (Str [38754, 35527]) (Str [25104, 32004])))))))
       (Seq (Opt (Atom (OneOf [Lit 25968, Lit 20214, Lit 29575])))
         (Seq (Rep 0 (OneOf [Space]))
           (Seq (Rep 0 (OneOf [Lit 58, Space, Lit 65306]))
                (Grp 2 number_re))))"

definition patterns :: "re list" where
  "patterns = [pattern1, pattern2, pattern3]"

text \<open>
  A \<open>dict\<close> keeps its keys in the order of their first insertion; \<open>d[k] = v\<close> on a
  key already present replaces the value in place. A dict is an association list with
  distinct keys.
\<close>

fun dict_set :: "('k \<times> 'v) list \<Rightarrow> 'k \<Rightarrow> 'v \<Rightarrow> ('k \<times> 'v) list" where
  "dict_set [] k v = [(k, v)]"
| "dict_set ((k', v') # d) k v =
     (if k' = k then (k', v) # d else (k', v') # dict_set d k v)"

text \<open>
  \<^verbatim>\<open>for pattern, _, _ in patterns:
      matches = re.findall(pattern, text)
      for match in matches:
          if isinstance(match, tuple) and len(match) >= 2:
              key, value = match[0], match[1]
              kpi_values[key.strip()] = value.strip()\<close>
  Every pattern has two groups, so every match is a pair.
\<close>

definition add_matches :: "(ustr \<times> ustr) list \<Rightarrow> (ustr \<times> ustr) list \<Rightarrow> (ustr \<times> ustr) list" where
  "add_matches kpi_values matches =
     foldl (\<lambda>d (key, value). dict_set d (strip key) (strip value)) kpi_values matches"

definition extract_kpi_values :: "ustr \<Rightarrow> (ustr \<times> ustr) list" where
  "extract_kpi_values text =
     foldl (\<lambda>d pattern. add_matches d (findall pattern text)) [] patterns"

text \<open>
  The separator class of the first pattern, \<^verbatim>\<open>[:\sU+FF1A]\<close>: the colon, the
  full-width colon and whitespace. The label class \<^verbatim>\<open>[^\s:U+FF1A]\<close> is its complement.
\<close>

definition is_separator :: "nat \<Rightarrow> bool" where
  "is_separator c = (c = 58 \<or> c = 65306 \<or> isspace_chr c)"

section \<open>Data model\<close>

text \<open>
  A naive \<open>datetime\<close> holds calendar fields; two of them compare field by field, from
  the year down to the microsecond.
\<close>

record datetime =
  year :: nat
  month :: nat
  day :: nat
  hour :: nat
  minute :: nat
  second :: nat
  microsecond :: nat

definition dt_key :: "datetime \<Rightarrow> nat \<times> nat \<times> nat \<times> nat \<times> nat \<times> nat \<times> nat" where
  "dt_key d = (year d, month d, day d, hour d, minute d, second d, microsecond d)"

text \<open>\<open>str(n)\<close> of a natural number: its decimal digits.\<close>

fun str_nat :: "nat \<Rightarrow> ustr" where
  "str_nat n = (if n < 10 then [48 + n] else str_nat (n div 10) @ [48 + n mod 10])"

declare str_nat.simps [simp del]

definition pad2 :: "nat \<Rightarrow> ustr" where
  "pad2 n = (if n < 10 then 48 # str_nat n else str_nat n)"

text \<open>
  \<^verbatim>\<open>strftime("%Y-%m-%d %H:%M:%S")\<close>: every field but the year is padded to two
  digits. The year is written with its own digits, as CPython 3.11 on Linux writes it;
  a year of four digits, as every timestamp of a Slack message and every clock value
  has, is written alike on every platform.
\<close>

definition strftime :: "datetime \<Rightarrow> ustr" where
  "strftime d =
     str_nat (year d) @ [45] @ pad2 (month d) @ [45] @ pad2 (day d) @ [32]
       @ pad2 (hour d) @ [58] @ pad2 (minute d) @ [58] @ pad2 (second d)"

text \<open>
  The dataclasses of the source. The field \<open>text\<close> of a message is \<open>msg_text\<close> here,
  and the fields \<open>id\<close> and \<open>name\<close> of a channel are \<open>ch_id\<close> and \<open>ch_name\<close>.
\<close>

record KPIMessage =
  channel_id :: ustr
  channel_name :: ustr
  user_name :: ustr
  timestamp :: datetime
  msg_text :: ustr
  kpi_values :: "(ustr \<times> ustr) list"

record ChannelInfo =
  ch_id :: ustr
  ch_name :: ustr
  is_private :: bool

section \<open>Tabulator\<close>

text \<open>
  \<open>max(messages, key=lambda m: m.timestamp)\<close>: the first message with the greatest
  timestamp; \<open>max\<close> raises ValueError on an empty list, and the source calls it on a
  non-empty one only.
\<close>

fun max_timestamp :: "KPIMessage \<Rightarrow> KPIMessage list \<Rightarrow> KPIMessage" where
  "max_timestamp best [] = best"
| "max_timestamp best (m # ms') =
     max_timestamp (if dt_key (timestamp best) < dt_key (timestamp m) then m else best) ms'"

text \<open>The header row of the overview sheet, six column titles.\<close>

definition overview_headers :: "ustr list" where
  "overview_headers =
     [[27663, 21517],
      [12481, 12515, 12531, 12493, 12523, 21517],
      [12513, 12483, 12475, 12540, 12472, 25968],
      [26368, 26032, 12513, 12483, 12475, 12540, 12472, 26085, 26178],
      [26368, 26032, 12513, 12483, 12475, 12540, 12472, 20869, 23481],
      [21516, 26399, 26085, 26178]]"

text \<open>
  One row of the overview:
  \<^verbatim>\<open>if messages:
      latest_msg = max(messages, key=lambda m: m.timestamp)
      latest_time = latest_msg.timestamp.strftime("%Y-%m-%d %H:%M:%S")
      latest_text = latest_msg.text[:200] + "..." if len(latest_msg.text) > 200 else latest_msg.text
  else:
      latest_time = "-"
      latest_text = "-"
  row = [person_name, prefix + person_name, str(len(messages)), latest_time, latest_text, sync_time]\<close>
\<close>

definition overview_row :: "ustr \<Rightarrow> ustr \<times> KPIMessage list \<Rightarrow> ustr list" where
  "overview_row sync_time item =
     (case item of (person_name, messages) \<Rightarrow>
        (case messages of
           [] \<Rightarrow> [person_name, individual_prefix @ person_name, str_nat (length messages),
                  [45], [45], sync_time]
         | m # ms' \<Rightarrow>
             (let latest_msg = max_timestamp m ms';
                  latest_time = strftime (timestamp latest_msg);
                  latest_text = (if length (msg_text latest_msg) > 200
                                 then take 200 (msg_text latest_msg) @ [46, 46, 46]
                                 else msg_text latest_msg)
              in [person_name, individual_prefix @ person_name, str_nat (length messages),
                  latest_time, latest_text, sync_time])))"

text \<open>
  \<open>_prepare_overview_data\<close>. The source reads the clock itself,
  \<^verbatim>\<open>sync_time = datetime.now().strftime("%Y-%m-%d %H:%M:%S")\<close>, and has no parameter
  for it; \<open>clock\<close> is the value that \<open>datetime.now()\<close> returns at the call.
  \<open>sorted(kpi_data.items())\<close> orders the items of the dict by their keys, which are
  distinct, and strings compare by their code points.
\<close>

definition prepare_overview_data ::
    "datetime \<Rightarrow> (ustr \<times> KPIMessage list) list \<Rightarrow> ustr list list" where
  "prepare_overview_data clock kpi_data =
     overview_headers # map (overview_row (strftime clock)) (sort_key fst kpi_data)"

text \<open>\<open>sep.join(parts)\<close>\<close>

fun join :: "ustr \<Rightarrow> ustr list \<Rightarrow> ustr" where
  "join sep [] = []"
| "join sep [x] = x"
| "join sep (x # y # ys) = x @ sep @ join sep (y # ys)"

definition detail_headers :: "ustr list" where
  "detail_headers =
     [[26085, 26178],
      [12513, 12483, 12475, 12540, 12472, 20869, 23481],
      [25277, 20986, 75, 80, 73]]"

text \<open>
  \<^verbatim>\<open>if msg.kpi_values:
      kpi_str = ", ".join(f"{k}: {v}" for k, v in msg.kpi_values.items())
  else:
      kpi_str = "-"
  row = [timestamp, msg.text, kpi_str]\<close>
\<close>

definition detail_row :: "KPIMessage \<Rightarrow> ustr list" where
  "detail_row msg =
     [strftime (timestamp msg),
      msg_text msg,
      (if kpi_values msg \<noteq> []
       then join [44, 32] (map (\<lambda>(k, v). k @ [58, 32] @ v) (kpi_values msg))
       else [45])]"

text \<open>
  \<open>_prepare_detail_data\<close>.
  \<open>sorted(messages, key=lambda m: m.timestamp, reverse=True)\<close> is stable in both
  directions: the newest first, and messages of one timestamp in their given order.
  The argument \<open>person_name\<close> is not used by the source.
\<close>

definition sorted_newest_first :: "KPIMessage list \<Rightarrow> KPIMessage list" where
  "sorted_newest_first messages = rev (sort_key (\<lambda>m. dt_key (timestamp m)) (rev messages))"

definition prepare_detail_data :: "ustr \<Rightarrow> KPIMessage list \<Rightarrow> ustr list list" where
  "prepare_detail_data person_name messages =
     detail_headers # map detail_row (sorted_newest_first messages)"

section \<open>Status\<close>

datatype py_exn = SlackApiError | ValueError | OtherError

text \<open>\<open>s.isdigit()\<close>: not empty, and every character of numeric type Digit or Decimal.\<close>

definition py_isdigit :: "ustr \<Rightarrow> bool" where
  "py_isdigit s = (s \<noteq> [] \<and> list_all isdigit_chr s)"

text \<open>The value of a decimal digit: its offset in its range of the table, modulo 10.\<close>

definition digit_value :: "nat \<Rightarrow> nat" where
  "digit_value c =
     (case find (\<lambda>(lo, hi). lo \<le> c \<and> c \<le> hi) decimal_ranges of
        None \<Rightarrow> 0
      | Some (lo, hi) \<Rightarrow> (c - lo) mod 10)"

text \<open>
  The longest string of digits that \<open>int\<close> converts: the default of
  \<open>sys.int_max_str_digits\<close> (CPython 3.11). Every digit character counts, a leading
  zero too.
\<close>

definition int_max_str_digits :: nat where
  "int_max_str_digits = 4300"

text \<open>
  \<open>int(s)\<close> on a string that passed \<open>isdigit()\<close>, the only strings the source gives
  it; such a string has no sign, no blank and no underscore. \<open>int\<close> reads decimal
  digits, and raises ValueError on any other character and on a string of more digits
  than \<open>int_max_str_digits\<close>.
\<close>

definition py_int :: "ustr \<Rightarrow> py_exn + nat" where
  "py_int s =
     (if s \<noteq> [] \<and> list_all isdecimal_chr s \<and> length s \<le> int_max_str_digits
      then Inr (foldl (\<lambda>acc c. 10 * acc + digit_value c) 0 s)
      else Inl ValueError)"

text \<open>
  \<^verbatim>\<open>sum(int(row[2]) for row in data[1:] if len(row) > 2 and row[2].isdigit())\<close>:
  the rows are taken in order, and the first \<open>int\<close> that raises ends the sum.
\<close>

fun sum_counts :: "ustr list list \<Rightarrow> py_exn + nat" where
  "sum_counts [] = Inr 0"
| "sum_counts (row # rows) =
     (if length row > 2 \<and> py_isdigit (row ! 2)
      then (case py_int (row ! 2) of
              Inl e \<Rightarrow> Inl e
            | Inr n \<Rightarrow> (case sum_counts rows of Inl e \<Rightarrow> Inl e | Inr t \<Rightarrow> Inr (n + t)))
      else sum_counts rows)"

record status =
  last_sync :: "ustr option"
  channels_synced :: nat
  total_messages :: nat

text \<open>
  \<open>get_sync_status\<close>, on what \<open>read_data\<close> of the overview sheet gives: the rows, or
  an exception. The body is in a \<open>try\<close> whose handler catches every exception, prints
  it and goes on to \<open>return status\<close> with the fields written so far.
  \<^verbatim>\<open>if len(data) > 1:
      status["channels_synced"] = len(data) - 1
      if len(data[1]) >= 6:
          status["last_sync"] = data[1][5]
      status["total_messages"] = sum(...)\<close>
\<close>

definition get_sync_status :: "py_exn + ustr list list \<Rightarrow> status" where
  "get_sync_status read =
     (let status = \<lparr>last_sync = None, channels_synced = 0, total_messages = 0\<rparr> in
      case read of
        Inl e \<Rightarrow> status
      | Inr data \<Rightarrow>
          (if length data > 1 then
             (let status1 = status\<lparr>channels_synced := length data - 1\<rparr>;
                  status2 = (if length (data ! 1) \<ge> 6
                             then status1\<lparr>last_sync := Some (data ! 1 ! 5)\<rparr>
                             else status1)
              in case sum_counts (tl data) of
                   Inl e \<Rightarrow> status2
                 | Inr t \<Rightarrow> status2\<lparr>total_messages := t\<rparr>)
           else status))"

section \<open>Slack client\<close>

text \<open>
  A raw message is the dict that Slack returns; the source reads its keys \<open>text\<close> and
  \<open>ts\<close>, and either may be absent.
\<close>

record raw_message =
  raw_text :: "ustr option"
  raw_ts :: "ustr option"

text \<open>
  What the program is given from outside: the two calls of the Slack web API that it
  makes, each returning one page and the cursor of the next page or raising, and the
  conversion \<^verbatim>\<open>datetime.fromtimestamp(float(ts))\<close> of a raw timestamp to local
  time, which raises on a string that is no number or is out of range. The first
  argument of \<open>conversations_history\<close> is the channel, the second the page size, the
  third the cursor.
\<close>

record env =
  conversations_list :: "ustr option \<Rightarrow> py_exn + (ChannelInfo list \<times> ustr option)"
  conversations_history ::
    "ustr \<Rightarrow> int \<Rightarrow> ustr option \<Rightarrow> py_exn + (raw_message list \<times> ustr option)"
  fromtimestamp :: "ustr option \<Rightarrow> py_exn + datetime"

text \<open>\<open>if cursor\<close>: a cursor that is absent or the empty string ends the paging.\<close>

definition truthy :: "ustr option \<Rightarrow> bool" where
  "truthy c = (c \<noteq> None \<and> c \<noteq> Some [])"

text \<open>
  The result of a call of the program: None when it does not return, an exception that
  escapes it, or its value.
\<close>

type_synonym 'a run = "(py_exn + 'a) option"

definition bind_run :: "'a run \<Rightarrow> ('a \<Rightarrow> 'b run) \<Rightarrow> 'b run" where
  "bind_run m f = (case m of None \<Rightarrow> None | Some (Inl e) \<Rightarrow> Some (Inl e) | Some (Inr v) \<Rightarrow> f v)"

text \<open>
  \<open>get_all_channels\<close>: the loop \<open>while True\<close> asks for page after page until a page
  comes without a cursor. A \<open>SlackApiError\<close> is caught around the loop and the channels
  read so far are returned; any other exception escapes. The loop need not end.
\<close>

partial_function (option) channels_loop ::
    "env \<Rightarrow> ustr option \<Rightarrow> ChannelInfo list \<Rightarrow> (py_exn + ChannelInfo list) option" where
  "channels_loop e cursor channels =
     (case conversations_list e cursor of
        Inl x \<Rightarrow> (if x = SlackApiError then Some (Inr channels) else Some (Inl x))
      | Inr (page, next_cursor) \<Rightarrow>
          (if truthy next_cursor then channels_loop e next_cursor (channels @ page)
           else Some (Inr (channels @ page))))"

definition get_all_channels :: "env \<Rightarrow> ChannelInfo list run" where
  "get_all_channels e = channels_loop e None []"

text \<open>
  \<^verbatim>\<open>for channel in all_channels:
      if self.INDIVIDUAL_CHANNEL_PATTERN.match(channel.name):
          individual_channels.append(channel)\<close>
\<close>

definition get_individual_channels :: "env \<Rightarrow> ChannelInfo list run" where
  "get_individual_channels e =
     bind_run (get_all_channels e)
       (\<lambda>all_channels.
          Some (Inr (filter (\<lambda>channel. re_match INDIVIDUAL_CHANNEL_PATTERN (ch_name channel) \<noteq> None)
                       all_channels)))"

text \<open>
  \<open>get_channel_messages\<close>:
  \<^verbatim>\<open>while fetched < limit:
      if cursor: kwargs["cursor"] = cursor
      response = self.client.conversations_history(**kwargs)
      for msg in response["messages"]:
          if fetched >= limit: break
          messages.append(msg); fetched += 1
      cursor = response.get("response_metadata", {}).get("next_cursor")
      if not cursor: break\<close>
  with \<open>kwargs["limit"] = min(limit, 200)\<close>. A \<open>SlackApiError\<close> is caught around the
  loop, printed, and the messages read so far are returned; any other exception
  escapes. The loop need not end: a server may send empty pages with cursors for ever.
\<close>

partial_function (option) messages_loop ::
    "env \<Rightarrow> ustr \<Rightarrow> int \<Rightarrow> ustr option \<Rightarrow> int \<Rightarrow> raw_message list
       \<Rightarrow> (py_exn + raw_message list) option" where
  "messages_loop e channel limit cursor fetched messages =
     (if fetched < limit then
        (case conversations_history e channel (min limit 200) cursor of
           Inl x \<Rightarrow> (if x = SlackApiError then Some (Inr messages) else Some (Inl x))
         | Inr (page, next_cursor) \<Rightarrow>
             (let taken = take (nat (limit - fetched)) page in
              if truthy next_cursor
              then messages_loop e channel limit next_cursor
                     (fetched + int (length taken)) (messages @ taken)
              else Some (Inr (messages @ taken))))
      else Some (Inr messages))"

definition get_channel_messages :: "env \<Rightarrow> ustr \<Rightarrow> int \<Rightarrow> raw_message list run" where
  "get_channel_messages e channel limit = messages_loop e channel limit None 0 []"

text \<open>\<open>x or y\<close> on an optional string: \<open>y\<close> when \<open>x\<close> is None or empty.\<close>

definition or_else :: "ustr option \<Rightarrow> ustr \<Rightarrow> ustr" where
  "or_else x y = (case x of None \<Rightarrow> y | Some v \<Rightarrow> if v = [] then y else v)"

text \<open>
  \<open>parse_kpi_message\<close>:
  \<^verbatim>\<open>text = message.get("text", "")
  kpi_values = self._extract_kpi_values(text)
  if not kpi_values and not text.strip():
      return None
  timestamp = datetime.fromtimestamp(float(message.get("ts", 0)))
  person_name = self.extract_person_name(channel_info.name) or channel_info.name
  return KPIMessage(...)\<close>
\<close>

definition parse_kpi_message :: "env \<Rightarrow> raw_message \<Rightarrow> ChannelInfo \<Rightarrow> py_exn + KPIMessage option" where
  "parse_kpi_message e message channel_info =
     (let text = (case raw_text message of None \<Rightarrow> [] | Some t \<Rightarrow> t);
          kv = extract_kpi_values text
      in if kv = [] \<and> strip text = [] then Inr None
         else (case fromtimestamp e (raw_ts message) of
                 Inl x \<Rightarrow> Inl x
               | Inr ts \<Rightarrow>
                   Inr (Some \<lparr>channel_id = ch_id channel_info,
                              channel_name = ch_name channel_info,
                              user_name = or_else (extract_person_name (ch_name channel_info))
                                                  (ch_name channel_info),
                              timestamp = ts,
                              msg_text = text,
                              kpi_values = kv\<rparr>)))"

text \<open>
  The loop of \<open>get_kpi_data_from_channel\<close>:
  \<^verbatim>\<open>for msg in messages:
      kpi_msg = self.parse_kpi_message(msg, channel_info)
      if kpi_msg:
          kpi_messages.append(kpi_msg)\<close>
  The first message whose parsing raises ends it with that exception.
\<close>

fun kpi_messages_of :: "env \<Rightarrow> ChannelInfo \<Rightarrow> raw_message list \<Rightarrow> py_exn + KPIMessage list" where
  "kpi_messages_of e channel_info [] = Inr []"
| "kpi_messages_of e channel_info (msg # msgs) =
     (case parse_kpi_message e msg channel_info of
        Inl x \<Rightarrow> Inl x
      | Inr kpi_msg \<Rightarrow>
          (case kpi_messages_of e channel_info msgs of
             Inl x \<Rightarrow> Inl x
           | Inr rest \<Rightarrow> Inr (case kpi_msg of None \<Rightarrow> rest | Some k \<Rightarrow> k # rest)))"

definition get_kpi_data_from_channel :: "env \<Rightarrow> ChannelInfo \<Rightarrow> int \<Rightarrow> KPIMessage list run" where
  "get_kpi_data_from_channel e channel_info limit =
     bind_run (get_channel_messages e (ch_id channel_info) limit)
       (\<lambda>messages. Some (kpi_messages_of e channel_info messages))"

text \<open>
  The loop of \<open>get_all_individual_kpi_data\<close>:
  \<^verbatim>\<open>for channel in individual_channels:
      person_name = self.extract_person_name(channel.name)
      if person_name:
          kpi_messages = self.get_kpi_data_from_channel(channel, limit=message_limit)
          all_kpi_data[person_name] = kpi_messages\<close>
\<close>

fun kpi_loop ::
    "env \<Rightarrow> int \<Rightarrow> ChannelInfo list \<Rightarrow> (ustr \<times> KPIMessage list) list
       \<Rightarrow> (ustr \<times> KPIMessage list) list run" where
  "kpi_loop e limit [] all_kpi_data = Some (Inr all_kpi_data)"
| "kpi_loop e limit (channel # channels) all_kpi_data =
     (case extract_person_name (ch_name channel) of
        None \<Rightarrow> kpi_loop e limit channels all_kpi_data
      | Some person_name \<Rightarrow>
          if person_name = [] then kpi_loop e limit channels all_kpi_data
          else bind_run (get_kpi_data_from_channel e channel limit)
                 (\<lambda>kpi_messages.
                    kpi_loop e limit channels (dict_set all_kpi_data person_name kpi_messages)))"

definition get_all_individual_kpi_data :: "env \<Rightarrow> int \<Rightarrow> (ustr \<times> KPIMessage list) list run" where
  "get_all_individual_kpi_data e limit =
     bind_run (get_individual_channels e) (\<lambda>channels. kpi_loop e limit channels [])"

section \<open>Synchronizer\<close>

text \<open>
  The sheet store and the clock, over a state \<open>'w\<close> of the world. The methods of the
  sheets client catch the HTTP errors of the service and return False; \<open>write_data\<close>
  is called with \<open>clear_first=True\<close>.
\<close>

record 'w sheets =
  now :: "'w \<Rightarrow> datetime"
  ensure_sheet_exists :: "ustr \<Rightarrow> 'w \<Rightarrow> bool \<times> 'w"
  write_data :: "ustr \<Rightarrow> ustr list list \<Rightarrow> 'w \<Rightarrow> bool \<times> 'w"

record stats =
  channels_processed :: nat
  messages_synced :: nat
  errors :: nat

text \<open>The sheet names: \<open>KPI\<close> and U+6982 U+8981; U+8A73 U+7D30 and an underscore.\<close>

definition OVERVIEW_SHEET :: ustr where
  "OVERVIEW_SHEET = [75, 80, 73, 27010, 35201]"

definition DETAIL_SHEET_PREFIX :: ustr where
  "DETAIL_SHEET_PREFIX = [35443, 32048, 95]"

text \<open>
  The loop over the persons in \<open>sync_all_individual_kpi\<close>:
  \<^verbatim>\<open>for person_name, messages in all_kpi_data.items():
      if messages:
          detail_sheet_name = f"{self.DETAIL_SHEET_PREFIX}{person_name}"
          detail_data = self._prepare_detail_data(person_name, messages)
          self.sheets_client.ensure_sheet_exists(detail_sheet_name)
          if self.sheets_client.write_data(detail_sheet_name, detail_data, clear_first=True):
              stats["messages_synced"] += len(messages)
          else:
              stats["errors"] += 1\<close>
\<close>

fun detail_loop ::
    "'w sheets \<Rightarrow> (ustr \<times> KPIMessage list) list \<Rightarrow> stats \<Rightarrow> 'w \<Rightarrow> stats \<times> 'w" where
  "detail_loop sh [] st w = (st, w)"
| "detail_loop sh ((person_name, messages) # rest) st w =
     (if messages \<noteq> [] then
        (let (created, w1) = ensure_sheet_exists sh (DETAIL_SHEET_PREFIX @ person_name) w;
             (ok, w2) = write_data sh (DETAIL_SHEET_PREFIX @ person_name)
                          (prepare_detail_data person_name messages) w1
         in detail_loop sh rest
              (if ok then st\<lparr>messages_synced := messages_synced st + length messages\<rparr>
               else st\<lparr>errors := errors st + 1\<rparr>)
              w2)
      else detail_loop sh rest st w)"

text \<open>
  \<open>sync_all_individual_kpi\<close>: the statistics it returns and the world it leaves.
  \<^verbatim>\<open>all_kpi_data = self.slack_client.get_all_individual_kpi_data(message_limit)
  if not all_kpi_data: return stats
  overview_data = self._prepare_overview_data(all_kpi_data)
  self.sheets_client.ensure_sheet_exists(self.OVERVIEW_SHEET)
  if self.sheets_client.write_data(self.OVERVIEW_SHEET, overview_data, clear_first=True):
      stats["channels_processed"] = len(all_kpi_data)
  if create_detail_sheets: (the loop over the persons)
  return stats\<close>
\<close>

definition sync_all_individual_kpi ::
    "env \<Rightarrow> 'w sheets \<Rightarrow> int \<Rightarrow> bool \<Rightarrow> 'w \<Rightarrow> (stats \<times> 'w) run" where
  "sync_all_individual_kpi e sh message_limit create_detail_sheets w =
     bind_run (get_all_individual_kpi_data e message_limit)
       (\<lambda>all_kpi_data.
          let st = \<lparr>channels_processed = 0, messages_synced = 0, errors = 0\<rparr> in
          if all_kpi_data = [] then Some (Inr (st, w))
          else
            (let overview_data = prepare_overview_data (now sh w) all_kpi_data;
                 (created, w1) = ensure_sheet_exists sh OVERVIEW_SHEET w;
                 (ok, w2) = write_data sh OVERVIEW_SHEET overview_data w1;
                 st1 = (if ok then st\<lparr>channels_processed := length all_kpi_data\<rparr> else st)
             in Some (Inr (if create_detail_sheets then detail_loop sh all_kpi_data st1 w2
                           else (st1, w2)))))"

text \<open>
  The loop over the names in \<open>sync_specific_channels\<close>:
  \<^verbatim>\<open>for name in channel_names:
      if name in channel_map:
          channel = channel_map[name]
          messages = self.slack_client.get_kpi_data_from_channel(channel, message_limit)
          person_name = self.slack_client.extract_person_name(name) or name
          kpi_data[person_name] = messages
          stats["channels_processed"] += 1
      else:
          stats["errors"] += 1\<close>
\<close>

fun specific_loop ::
    "env \<Rightarrow> (ustr \<rightharpoonup> ChannelInfo) \<Rightarrow> int \<Rightarrow> ustr list \<Rightarrow> (ustr \<times> KPIMessage list) list \<Rightarrow> stats
       \<Rightarrow> ((ustr \<times> KPIMessage list) list \<times> stats) run" where
  "specific_loop e channel_map limit [] kpi_data st = Some (Inr (kpi_data, st))"
| "specific_loop e channel_map limit (name # names) kpi_data st =
     (case channel_map name of
        Some channel \<Rightarrow>
          bind_run (get_kpi_data_from_channel e channel limit)
            (\<lambda>messages.
               specific_loop e channel_map limit names
                 (dict_set kpi_data (or_else (extract_person_name name) name) messages)
                 (st\<lparr>channels_processed := channels_processed st + 1\<rparr>))
      | None \<Rightarrow>
          specific_loop e channel_map limit names kpi_data (st\<lparr>errors := errors st + 1\<rparr>))"

text \<open>
  \<open>sync_specific_channels\<close>. \<open>channel_map = {ch.name: ch for ch in all_channels}\<close>
  keeps the last channel of a name. After the loop:
  \<^verbatim>\<open>if kpi_data:
      overview_data = self._prepare_overview_data(kpi_data)
      self.sheets_client.ensure_sheet_exists(self.OVERVIEW_SHEET)
      self.sheets_client.write_data(self.OVERVIEW_SHEET, overview_data, clear_first=True)
      for person_name, messages in kpi_data.items():
          if messages:
              stats["messages_synced"] += len(messages)\<close>
\<close>

definition sync_specific_channels ::
    "env \<Rightarrow> 'w sheets \<Rightarrow> ustr list \<Rightarrow> int \<Rightarrow> 'w \<Rightarrow> (stats \<times> 'w) run" where
  "sync_specific_channels e sh channel_names message_limit w =
     bind_run (get_all_channels e)
       (\<lambda>all_channels.
          let channel_map = map_of (rev (map (\<lambda>ch. (ch_name ch, ch)) all_channels)) in
          bind_run (specific_loop e channel_map message_limit channel_names []
                      \<lparr>channels_processed = 0, messages_synced = 0, errors = 0\<rparr>)
            (\<lambda>(kpi_data, st).
               if kpi_data \<noteq> [] then
                 (let overview_data = prepare_overview_data (now sh w) kpi_data;
                      (created, w1) = ensure_sheet_exists sh OVERVIEW_SHEET w;
                      (ok, w2) = write_data sh OVERVIEW_SHEET overview_data w1
                  in Some (Inr (st\<lparr>messages_synced :=
                                     messages_synced st + sum_list (map (\<lambda>(p, m). length m) kpi_data)\<rparr>,
                                w2)))
               else Some (Inr (st, w))))"

section \<open>A scenario\<close>

text \<open>
  Three individual channels of the persons \<open>a\<close>, \<open>b\<close> and \<open>c\<close>, listed on one
  page. The history of the second raises \<open>SlackApiError\<close>; the two others hold one
  message with the text \<open>a\<close>. Every timestamp converts to the first second of 2024,
  which is also the time of the clock. Every sheet write succeeds, and the state of the
  world is the list of the writes made.
\<close>

definition scenario_clock :: datetime where
  "scenario_clock =
     \<lparr>year = 2024, month = 1, day = 1, hour = 0, minute = 0, second = 0, microsecond = 0\<rparr>"

definition chan_a :: ChannelInfo where
  "chan_a = \<lparr>ch_id = [65], ch_name = [20491, 20154, 95, 97], is_private = False\<rparr>"

definition chan_b :: ChannelInfo where
  "chan_b = \<lparr>ch_id = [66], ch_name = [20491, 20154, 95, 98], is_private = False\<rparr>"

definition chan_c :: ChannelInfo where
  "chan_c = \<lparr>ch_id = [67], ch_name = [20491, 20154, 95, 99], is_private = False\<rparr>"

definition message_a :: raw_message where
  "message_a = \<lparr>raw_text = Some [97], raw_ts = None\<rparr>"

definition scenario_env :: env where
  "scenario_env =
     \<lparr>conversations_list = (\<lambda>cursor. Inr ([chan_a, chan_b, chan_c], None)),
      conversations_history =
        (\<lambda>channel limit cursor.
           if channel = [66] then Inl SlackApiError else Inr ([message_a], None)),
      fromtimestamp = (\<lambda>ts. Inr scenario_clock)\<rparr>"

definition scenario_sheets :: "(ustr \<times> ustr list list) list sheets" where
  "scenario_sheets =
     \<lparr>now = (\<lambda>w. scenario_clock),
      ensure_sheet_exists = (\<lambda>name w. (True, w)),
      write_data = (\<lambda>name data w. (True, w @ [(name, data)]))\<rparr>"

text \<open>The record that a message with the text \<open>a\<close> gives in the channel of a person.\<close>

definition record_of :: "ChannelInfo \<Rightarrow> ustr \<Rightarrow> KPIMessage" where
  "record_of channel person =
     \<lparr>channel_id = ch_id channel, channel_name = ch_name channel, user_name = person,
      timestamp = scenario_clock, msg_text = [97], kpi_values = []\<rparr>"

section \<open>Properties of the matcher\<close>

lemma concat_rev_upt_last:
  assumes "\<And>i. k \<le> i \<Longrightarrow> i < L \<Longrightarrow> f i = []"
  shows "concat (map f (rev [k ..< Suc L])) = (if k \<le> L then f L else [])"
proof -
  have "concat (map f (rev [k ..< L])) = []"
    using assms by auto
  then show ?thesis by simp
qed

lemma drop_takeWhile_head:
  assumes "i < length (takeWhile P s)"
  shows "\<exists>c t. drop i s = c # t \<and> P c"
proof -
  have "i < length s" using assms length_takeWhile_le[of P s] by simp
  then have d: "drop i s = s ! i # drop (Suc i) s" by (simp add: Cons_nth_drop_Suc)
  have "takeWhile P s ! i = s ! i" using assms by (rule takeWhile_nth)
  moreover have "P (takeWhile P s ! i)" using assms nth_mem set_takeWhileD by metis
  ultimately show ?thesis using d by auto
qed

lemma ms_dot_eol:
  "ms (Seq (Grp 1 (Rep 1 Dot)) Eol) bos s =
     (let r = takeWhile (\<lambda>c. c \<noteq> 10) s in
      if r \<noteq> [] \<and> (s = r \<or> s = r @ [10]) then [(length r, [(1, r)])] else [])"
proof -
  define L where "L = length (takeWhile (\<lambda>c. c \<noteq> 10) s)"
  define f where "f = (\<lambda>i. if drop i s = [] \<or> drop i s = [10] then [(i, [(1::nat, take i s)])] else [])"
  have dot: "atom_ok Dot = (\<lambda>c. c \<noteq> 10)" by (rule ext) simp
  have 1: "ms (Seq (Grp 1 (Rep 1 Dot)) Eol) bos s = concat (map f (rev [1 ..< Suc L]))"
    unfolding f_def L_def
    by (simp add: dot comp_def if_distrib[of "map g" for g] cong: if_cong del: upt_Suc)
  have 2: "f i = []" if "1 \<le> i" "i < L" for i
  proof -
    have "i < length (takeWhile (\<lambda>c. c \<noteq> 10) s)" using that by (simp add: L_def)
    from drop_takeWhile_head[OF this]
    obtain c t where "drop i s = c # t" "c \<noteq> 10" by blast
    then show ?thesis unfolding f_def by (simp del: drop_eq_Nil drop_eq_Nil2)
  qed
  have 3: "concat (map f (rev [1 ..< Suc L])) = (if 1 \<le> L then f L else [])"
    using 2 by (rule concat_rev_upt_last)
  have tk: "take L s = takeWhile (\<lambda>c. c \<noteq> 10) s"
    unfolding L_def by (metis takeWhile_eq_take)
  have dr: "drop L s = dropWhile (\<lambda>c. c \<noteq> 10) s"
    unfolding L_def by (metis dropWhile_eq_drop)
  define r where "r = takeWhile (\<lambda>c. c \<noteq> 10) s"
  define d where "d = dropWhile (\<lambda>c. c \<noteq> 10) s"
  have s: "s = r @ d" by (simp add: r_def d_def)
  have a: "s = r \<longleftrightarrow> d = []" using s by simp
  have b: "s = r @ [10] \<longleftrightarrow> d = [10]" using s by simp
  have c: "1 \<le> L \<longleftrightarrow> r \<noteq> []" by (cases r) (simp_all add: L_def r_def[symmetric])
  have fL: "f L = (if d = [] \<or> d = [10] then [(L, [(1, r)])] else [])"
    unfolding f_def tk dr r_def d_def ..
  have "ms (Seq (Grp 1 (Rep 1 Dot)) Eol) bos s =
     (if r \<noteq> [] \<and> (s = r \<or> s = r @ [10]) then [(length r, [(1, r)])] else [])"
    unfolding 1 3 fL a b c by (simp add: L_def r_def)
  then show ?thesis by (simp add: Let_def r_def)
qed

lemma takeWhile_no_lf:
  "10 \<notin> set r \<Longrightarrow> takeWhile (\<lambda>c. c \<noteq> (10::nat)) r = r"
  "10 \<notin> set r \<Longrightarrow> takeWhile (\<lambda>c. c \<noteq> (10::nat)) (r @ [10]) = r"
  by (induction r) auto

lemma extract_person_name_eq:
  "extract_person_name n =
     (let t = drop 3 n; r = takeWhile (\<lambda>c. c \<noteq> 10) t in
      if prefix individual_prefix n \<and> r \<noteq> [] \<and> (t = r \<or> t = r @ [10]) then Some r else None)"
proof -
  define X where "X = Seq (Grp 1 (Rep 1 Dot)) Eol"
  have "ms INDIVIDUAL_CHANNEL_PATTERN True n =
          (if prefix individual_prefix n
           then map (\<lambda>(k, c). (3 + k, c)) (ms X False (drop 3 n)) else [])"
    unfolding INDIVIDUAL_CHANNEL_PATTERN_def X_def[symmetric]
    by (simp add: individual_prefix_def numeral_3_eq_3)
  then have "ms INDIVIDUAL_CHANNEL_PATTERN True n =
      (if prefix individual_prefix n
       then map (\<lambda>(k, c). (3 + k, c))
         (let r = takeWhile (\<lambda>c. c \<noteq> 10) (drop 3 n) in
          if r \<noteq> [] \<and> (drop 3 n = r \<or> drop 3 n = r @ [10]) then [(length r, [(1, r)])] else [])
       else [])"
    unfolding X_def ms_dot_eol .
  then show ?thesis
    unfolding extract_person_name_def re_match_def
    by (simp add: Let_def group_def)
qed

lemma extract_person_name_Some_iff:
  "extract_person_name n = Some r \<longleftrightarrow>
     r \<noteq> [] \<and> 10 \<notin> set r \<and> (n = individual_prefix @ r \<or> n = individual_prefix @ r @ [10])"
proof
  assume a: "extract_person_name n = Some r"
  define t where "t = drop 3 n"
  from a have p: "prefix individual_prefix n" and r: "r = takeWhile (\<lambda>c. c \<noteq> 10) t"
    and ne: "r \<noteq> []" and t: "t = r \<or> t = r @ [10]"
    unfolding extract_person_name_eq t_def by (auto simp: Let_def split: if_splits)
  from p have n: "n = individual_prefix @ t"
    unfolding t_def by (auto simp: prefix_def individual_prefix_def)
  have "10 \<notin> set r" unfolding r using set_takeWhileD by fastforce
  with ne t n show "r \<noteq> [] \<and> 10 \<notin> set r \<and> (n = individual_prefix @ r \<or> n = individual_prefix @ r @ [10])"
    by auto
next
  assume a: "r \<noteq> [] \<and> 10 \<notin> set r \<and> (n = individual_prefix @ r \<or> n = individual_prefix @ r @ [10])"
  then have tw: "takeWhile (\<lambda>c. c \<noteq> 10) r = r" using takeWhile_no_lf(1) by blast
  from a have tw2: "takeWhile (\<lambda>c. c \<noteq> 10) (r @ [10]) = r" using takeWhile_no_lf(2) by blast
  have p: "prefix individual_prefix n" using a by auto
  from a consider "drop 3 n = r" | "drop 3 n = r @ [10]" by (auto simp: individual_prefix_def)
  then show "extract_person_name n = Some r"
  proof cases
    case 1
    show ?thesis unfolding extract_person_name_eq Let_def 1 tw using a p by simp
  next
    case 2
    show ?thesis unfolding extract_person_name_eq Let_def 2 tw2 using a p by simp
  qed
qed

lemma shift_eq: "shift n1 c1 ys = map (\<lambda>(n2, c2). (n1 + n2, c1 @ c2)) ys"
  by (induction ys) auto

lemma seqr_eq:
  "seqr xs q b s = concat (map (\<lambda>(n1, c1).
       map (\<lambda>(n2, c2). (n1 + n2, c1 @ c2)) (ms q (b \<and> n1 = 0) (drop n1 s))) xs)"
  by (induction xs) (auto simp: shift_eq)

lemma ms_Seq_eval: "ms (Seq p q) b s = seqr (ms p b s) q b s"
  by (simp add: seqr_eq)

lemmas char_eval =
  isspace_chr_def isdecimal_chr_def isdigit_chr_def in_ranges_def
  space_ranges_def decimal_ranges_def other_digit_ranges_def

lemmas re_eval =
  findall_def group_str_def group_def pattern1_def pattern2_def pattern3_def number_re_def
  ms_Seq_eval is_separator_def

lemma in_concat_map: "x \<in> set (concat (map f xs)) \<longleftrightarrow> (\<exists>y \<in> set xs. x \<in> set (f y))"
  by auto

lemma in_ms_Seq:
  "(n, c) \<in> set (ms (Seq p q) b s) \<longleftrightarrow>
     (\<exists>n1 c1 n2 c2. (n1, c1) \<in> set (ms p b s) \<and> (n2, c2) \<in> set (ms q (b \<and> n1 = 0) (drop n1 s))
        \<and> n = n1 + n2 \<and> c = c1 @ c2)"
proof -
  have "(n, c) \<in> set (ms (Seq p q) b s) \<longleftrightarrow>
      (\<exists>y \<in> set (ms p b s). (n, c) \<in> set (map (\<lambda>z. (fst y + fst z, snd y @ snd z))
          (ms q (b \<and> fst y = 0) (drop (fst y) s))))"
    unfolding ms.simps in_concat_map by (simp add: case_prod_unfold)
  also have "\<dots> \<longleftrightarrow> (\<exists>n1 c1 n2 c2. (n1, c1) \<in> set (ms p b s)
        \<and> (n2, c2) \<in> set (ms q (b \<and> n1 = 0) (drop n1 s)) \<and> n = n1 + n2 \<and> c = c1 @ c2)"
    by (auto simp: image_iff) force+
  finally show ?thesis .
qed

lemma in_ms_Rep:
  "(n, c) \<in> set (ms (Rep k a) b s) \<longleftrightarrow>
     c = [] \<and> k \<le> n \<and> n \<le> length (takeWhile (atom_ok a) s)"
  by auto

lemma in_ms_Grp:
  "(n, c) \<in> set (ms (Grp g p) b s) \<longleftrightarrow> (\<exists>c'. (n, c') \<in> set (ms p b s) \<and> c = c' @ [(g, take n s)])"
proof
  assume "(n, c) \<in> set (ms (Grp g p) b s)"
  then show "\<exists>c'. (n, c') \<in> set (ms p b s) \<and> c = c' @ [(g, take n s)]"
    by (auto simp: case_prod_unfold)
next
  assume "\<exists>c'. (n, c') \<in> set (ms p b s) \<and> c = c' @ [(g, take n s)]"
  then show "(n, c) \<in> set (ms (Grp g p) b s)" by force
qed

lemma sublist_take_mono:
  assumes "sublist v (take n s)" "n \<le> m"
  shows "sublist v (take m s)"
proof -
  have "take n s = take n (take m s)" using assms(2) by (simp add: min.absorb1)
  then have "prefix (take n s) (take m s)" by (metis take_is_prefix)
  then show ?thesis using assms(1) by (meson prefix_imp_sublist sublist_order.order.trans)
qed

lemma sublist_take_drop:
  assumes "sublist v (take m (drop n s))"
  shows "sublist v (take (n + m) s)"
proof -
  have "take (n + m) s = take n s @ take m (drop n s)" by (simp add: take_add)
  then have "suffix (take m (drop n s)) (take (n + m) s)" by (simp add: suffix_def)
  then show ?thesis using assms by (meson suffix_imp_sublist sublist_order.order.trans)
qed

lemma ms_sound:
  "(n, c) \<in> set (ms r b s) \<Longrightarrow> n \<le> length s \<and> (\<forall>(g, v) \<in> set c. sublist v (take n s))"
proof (induction r arbitrary: n c b s)
  case (Atom a)
  then show ?case by (auto split: list.splits if_splits)
next
  case (Rep k a)
  then have "n \<le> length (takeWhile (atom_ok a) s)" "c = []" by auto
  then show ?case using length_takeWhile_le[of "atom_ok a" s] by simp
next
  case (Seq p q)
  from Seq.prems obtain n1 c1 n2 c2 where
    1: "(n1, c1) \<in> set (ms p b s)" and 2: "(n2, c2) \<in> set (ms q (b \<and> n1 = 0) (drop n1 s))"
    and n: "n = n1 + n2" and c: "c = c1 @ c2"
    unfolding in_ms_Seq by blast
  from Seq.IH(1)[OF 1] have a: "n1 \<le> length s" "\<forall>(g, v) \<in> set c1. sublist v (take n1 s)" by auto
  from Seq.IH(2)[OF 2] have b: "n2 \<le> length (drop n1 s)" "\<forall>(g, v) \<in> set c2. sublist v (take n2 (drop n1 s))" by auto
  have "n \<le> length s" using a(1) b(1) n by simp
  moreover have "\<forall>(g, v) \<in> set c. sublist v (take n s)"
    unfolding c n using a(2) b(2) sublist_take_mono[of _ n1 s "n1 + n2"] sublist_take_drop[of _ n2 n1 s]
    by auto
  ultimately show ?case by simp
next
  case (Alt p q)
  from Alt.prems consider "(n, c) \<in> set (ms p b s)" | "(n, c) \<in> set (ms q b s)" by auto
  then show ?case
  proof cases
    case 1
    then show ?thesis by (rule Alt.IH(1))
  next
    case 2
    then show ?thesis by (rule Alt.IH(2))
  qed
next
  case (Opt p)
  from Opt.prems consider "(n, c) \<in> set (ms p b s)" | "n = 0" "c = []" by auto
  then show ?case
  proof cases
    case 1
    then show ?thesis by (rule Opt.IH)
  next
    case 2
    then show ?thesis by simp
  qed
next
  case (Grp g p)
  from Grp.prems obtain c' where 1: "(n, c') \<in> set (ms p b s)" and c: "c = c' @ [(g, take n s)]"
    unfolding in_ms_Grp by blast
  from Grp.IH[OF 1] show ?case unfolding c by auto
next
  case (Str w)
  then show ?case by (auto split: if_splits simp: prefix_def)
next
  case Bol
  then show ?case by (auto split: if_splits)
next
  case Eol
  then show ?case by (auto split: if_splits)
qed

lemma findall_from_sound:
  "c \<in> set (findall_from r b s) \<Longrightarrow>
     \<exists>pre post n b'. s = pre @ post \<and> (n, c) \<in> set (ms r b' post)"
proof (induction r b s rule: findall_from.induct)
  case (1 r bos s)
  show ?case
  proof (cases "ms r bos s")
    case Nil
    show ?thesis
    proof (cases s)
      case Nil
      with \<open>ms r bos s = []\<close> "1.prems" show ?thesis by simp
    next
      case (Cons x s')
      with Nil "1.prems" have "c \<in> set (findall_from r False s')" by simp
      from "1.IH"(1)[OF Nil Cons this] obtain pre post n b' where
        "s' = pre @ post" "(n, c) \<in> set (ms r b' post)" by blast
      then have "s = (x # pre) @ post" using Cons by simp
      with \<open>(n, c) \<in> set (ms r b' post)\<close> show ?thesis by blast
    qed
  next
    case (Cons m rest)
    obtain n c0 where m: "m = (n, c0)" by (cases m)
    show ?thesis
    proof (cases "c = c0")
      case True
      have "s = [] @ s" by simp
      moreover have "(n, c) \<in> set (ms r bos s)" using Cons m True by simp
      ultimately show ?thesis by blast
    next
      case False
      then obtain x s' where s: "s = x # s'" and in': "c \<in> set (findall_from r False (drop (n - 1) s'))"
        using "1.prems" Cons m by (cases s) auto
      from "1.IH"(2)[OF Cons m[symmetric] s in'] obtain pre post k b' where
        d: "drop (n - 1) s' = pre @ post" and k: "(k, c) \<in> set (ms r b' post)" by blast
      have "s = (x # take (n - 1) s' @ pre) @ post"
        using s d by (metis append_Cons append_assoc append_take_drop_id)
      with k show ?thesis by blast
    qed
  qed
qed

lemma sublist_strip: "sublist (strip v) v"
proof -
  have "sublist (strip v) (dropWhile isspace_chr v)"
    unfolding strip_def sublist_rev_left by simp
  then show ?thesis
    using sublist_dropWhile sublist_order.order.trans by blast
qed

lemma findall_sound:
  assumes "(k, v) \<in> set (findall r s)"
  shows "sublist k s \<and> sublist v s"
proof -
  from assms obtain c where c: "c \<in> set (findall_from r True s)"
    and k: "k = group_str c 1" and v: "v = group_str c 2"
    unfolding findall_def by auto
  from findall_from_sound[OF c] obtain pre post n b' where
    s: "s = pre @ post" and m: "(n, c) \<in> set (ms r b' post)" by blast
  from ms_sound[OF m] have sub: "\<forall>(g, w) \<in> set c. sublist w (take n post)" by simp
  have "sublist (group_str c g) s" for g
  proof (cases "group c g")
    case None
    then show ?thesis by (simp add: group_str_def)
  next
    case (Some w)
    then have "(g, w) \<in> set c" unfolding group_def by (metis map_of_SomeD set_rev)
    with sub have "sublist w (take n post)" by auto
    then have "sublist w post" using sublist_take sublist_order.order.trans by blast
    then have "sublist w s" unfolding s using sublist_append by blast
    with Some show ?thesis by (simp add: group_str_def)
  qed
  then show ?thesis unfolding k v by simp
qed

lemma dict_set_keys:
  "map fst (dict_set d k v) = (if k \<in> set (map fst d) then map fst d else map fst d @ [k])"
proof (induction d)
  case Nil
  then show ?case by simp
next
  case (Cons a d)
  obtain k' v' where a: "a = (k', v')" by (cases a)
  show ?case unfolding a using Cons.IH by (cases "k' = k") auto
qed

lemma dict_set_distinct: "distinct (map fst d) \<Longrightarrow> distinct (map fst (dict_set d k v))"
  by (simp add: dict_set_keys)

lemma dict_set_entries: "set (dict_set d k v) \<subseteq> insert (k, v) (set d)"
proof (induction d)
  case Nil
  then show ?case by simp
next
  case (Cons a d)
  obtain k' v' where a: "a = (k', v')" by (cases a)
  show ?case unfolding a using Cons.IH by (cases "k' = k") auto
qed

lemma add_matches_distinct:
  "distinct (map fst d) \<Longrightarrow> distinct (map fst (add_matches d xs))"
  unfolding add_matches_def
  by (induction xs arbitrary: d) (auto simp: dict_set_distinct)

lemma add_matches_entries:
  "set (add_matches d xs) \<subseteq> set d \<union> (\<lambda>(k, v). (strip k, strip v)) ` set xs"
  unfolding add_matches_def
proof (induction xs arbitrary: d)
  case Nil
  then show ?case by simp
next
  case (Cons m xs)
  obtain k v where m: "m = (k, v)" by (cases m)
  have "set (foldl (\<lambda>d (key, value). dict_set d (strip key) (strip value)) (dict_set d (strip k) (strip v)) xs)
      \<subseteq> set (dict_set d (strip k) (strip v)) \<union> (\<lambda>(k, v). (strip k, strip v)) ` set xs"
    by (rule Cons.IH)
  then show ?case using dict_set_entries[of d "strip k" "strip v"] unfolding m by auto
qed

lemma extract_kpi_values_entries:
  assumes "(k, v) \<in> set (extract_kpi_values t)"
  shows "\<exists>p \<in> set patterns. \<exists>(k0, v0) \<in> set (findall p t). k = strip k0 \<and> v = strip v0"
proof -
  define f where "f = (\<lambda>(k :: ustr, v :: ustr). (strip k, strip v))"
  define d1 where "d1 = add_matches [] (findall pattern1 t)"
  define d2 where "d2 = add_matches d1 (findall pattern2 t)"
  define d3 where "d3 = add_matches d2 (findall pattern3 t)"
  have e: "extract_kpi_values t = d3"
    unfolding extract_kpi_values_def patterns_def d3_def d2_def d1_def by simp
  have 1: "set d1 \<subseteq> f ` set (findall pattern1 t)"
    unfolding d1_def f_def using add_matches_entries[of "[]"] by simp
  have 2: "set d2 \<subseteq> set d1 \<union> f ` set (findall pattern2 t)"
    unfolding d2_def f_def by (rule add_matches_entries)
  have 3: "set d3 \<subseteq> set d2 \<union> f ` set (findall pattern3 t)"
    unfolding d3_def f_def by (rule add_matches_entries)
  from assms e 1 2 3 have "(k, v) \<in> f ` set (findall pattern1 t) \<union> f ` set (findall pattern2 t)
      \<union> f ` set (findall pattern3 t)" by auto
  then obtain p m where p: "p \<in> set patterns" and m: "m \<in> set (findall p t)" and kv: "(k, v) = f m"
    unfolding patterns_def by auto
  obtain k0 v0 where m0: "m = (k0, v0)" by (cases m)
  from kv have "k = strip k0 \<and> v = strip v0" unfolding m0 f_def by simp
  with p m show ?thesis unfolding m0 by blast
qed

lemma extract_kpi_values_distinct: "distinct (map fst (extract_kpi_values t))"
  unfolding extract_kpi_values_def patterns_def
  by (simp add: add_matches_distinct)

lemma separator_ranges: "is_separator c = in_ranges c ((58, 58) # (65306, 65306) # space_ranges)"
  unfolding is_separator_def isspace_chr_def in_ranges_def by auto

lemma decimal_separator_disjoint:
  "list_all (\<lambda>(lo, hi). list_all (\<lambda>(l2, h2). hi < l2 \<or> h2 < lo)
      ((58, 58) # (65306, 65306) # space_ranges)) decimal_ranges"
  unfolding decimal_ranges_def space_ranges_def by simp

lemma decimal_not_separator: "isdecimal_chr c \<Longrightarrow> \<not> is_separator c"
proof
  assume d: "isdecimal_chr c" and s: "is_separator c"
  from d obtain lo hi where 1: "(lo, hi) \<in> set decimal_ranges" "lo \<le> c" "c \<le> hi"
    unfolding isdecimal_chr_def in_ranges_def list_ex_iff by auto
  from s obtain l2 h2 where 2: "(l2, h2) \<in> set ((58, 58) # (65306, 65306) # space_ranges)" "l2 \<le> c" "c \<le> h2"
    unfolding separator_ranges in_ranges_def list_ex_iff by auto
  from decimal_separator_disjoint 1(1) 2(1) have "hi < l2 \<or> h2 < lo"
    unfolding list_all_iff by fast
  with 1 2 show False by linarith
qed

lemma atom_ok_sep [simp]: "atom_ok (OneOf [Lit 58, Space, Lit 65306]) = is_separator"
  by (rule ext) (auto simp: is_separator_def)

lemma atom_ok_lab [simp]: "atom_ok (NoneOf [Space, Lit 58, Lit 65306]) = (\<lambda>c. \<not> is_separator c)"
  by (rule ext) (auto simp: is_separator_def)

lemma atom_ok_digit [simp]: "atom_ok (OneOf [Digit]) = isdecimal_chr"
  by (rule ext) simp

lemma take_takeWhile_all:
  assumes "n \<le> length (takeWhile P s)"
  shows "\<forall>x \<in> set (take n s). P x"
proof -
  have "take n s = take n (takeWhile P s)"
    using assms by (metis takeWhile_eq_take take_take min.absorb1)
  then show ?thesis by (metis in_set_takeD set_takeWhileD)
qed

lemma grp_free_caps:
  "grp_free r \<Longrightarrow> (n, c) \<in> set (ms r b s) \<Longrightarrow> c = []"
proof (induction r arbitrary: n c b s)
  case (Seq p q)
  from Seq.prems(2) obtain n1 c1 n2 c2 where
    1: "(n1, c1) \<in> set (ms p b s)" and 2: "(n2, c2) \<in> set (ms q (b \<and> n1 = 0) (drop n1 s))"
    and c: "c = c1 @ c2"
    unfolding in_ms_Seq by blast
  from Seq.IH(1)[OF _ 1] Seq.IH(2)[OF _ 2] Seq.prems(1) show ?case unfolding c by simp
next
  case (Alt p q)
  from Alt.prems(2) consider "(n, c) \<in> set (ms p b s)" | "(n, c) \<in> set (ms q b s)" by auto
  then show ?case using Alt.IH Alt.prems(1) by cases auto
next
  case (Opt p)
  from Opt.prems(2) consider "(n, c) \<in> set (ms p b s)" | "c = []" by auto
  then show ?case using Opt.IH Opt.prems(1) by cases auto
qed (auto split: list.splits if_splits)

lemma number_re_sound:
  assumes "(n, c) \<in> set (ms number_re b s)"
  shows "c = [] \<and> s \<noteq> [] \<and> 0 < n \<and> isdecimal_chr (hd s)"
proof -
  have "grp_free number_re" unfolding number_re_def by simp
  from grp_free_caps[OF this assms] have c: "c = []" .
  from assms obtain n1 c1 n2 where 1: "(n1, c1) \<in> set (ms (Rep 1 (OneOf [Digit])) b s)" and n: "n = n1 + n2"
    unfolding number_re_def in_ms_Seq[of n c "Rep 1 (OneOf [Digit])"] by blast
  from 1 have n1: "1 \<le> n1" "n1 \<le> length (takeWhile isdecimal_chr s)"
    unfolding in_ms_Rep atom_ok_digit by auto
  then have "takeWhile isdecimal_chr s \<noteq> []" by auto
  then have "s \<noteq> [] \<and> isdecimal_chr (hd s)" by (cases s) (auto split: if_splits)
  then show ?thesis using n n1 c by simp
qed

lemma pattern1_sound:
  assumes "(n, c) \<in> set (ms pattern1 b s)"
  shows "\<exists>lab sep val post. s = lab @ sep @ val @ post \<and> c = [(1, lab), (2, val)]
           \<and> lab \<noteq> [] \<and> (\<forall>x \<in> set lab. \<not> is_separator x)
           \<and> sep \<noteq> [] \<and> (\<forall>x \<in> set sep. is_separator x)
           \<and> val \<noteq> [] \<and> isdecimal_chr (hd val)"
proof -
  from assms obtain n1 c1 m cm where
    a: "(n1, c1) \<in> set (ms (Grp 1 (Rep 1 (NoneOf [Space, Lit 58, Lit 65306]))) b s)"
    and bb: "(m, cm) \<in> set (ms (Seq (Rep 1 (OneOf [Lit 58, Space, Lit 65306])) (Grp 2 number_re))
               (b \<and> n1 = 0) (drop n1 s))"
    and c0: "c = c1 @ cm"
    unfolding pattern1_def in_ms_Seq[of n c "Grp 1 (Rep 1 (NoneOf [Space, Lit 58, Lit 65306]))"] by blast
  from a have n1: "1 \<le> n1" "n1 \<le> length (takeWhile (\<lambda>c. \<not> is_separator c) s)"
    and c1: "c1 = [(1, take n1 s)]"
    unfolding in_ms_Grp in_ms_Rep atom_ok_lab by auto
  from bb obtain n2 c2 n3 cg where
    d: "(n2, c2) \<in> set (ms (Rep 1 (OneOf [Lit 58, Space, Lit 65306])) (b \<and> n1 = 0) (drop n1 s))"
    and e: "(n3, cg) \<in> set (ms (Grp 2 number_re) ((b \<and> n1 = 0) \<and> n2 = 0) (drop n2 (drop n1 s)))"
    and cm: "cm = c2 @ cg"
    unfolding in_ms_Seq[of m cm "Rep 1 (OneOf [Lit 58, Space, Lit 65306])"] by blast
  from d have n2: "1 \<le> n2" "n2 \<le> length (takeWhile is_separator (drop n1 s))" and c2: "c2 = []"
    unfolding in_ms_Rep atom_ok_sep by auto
  from e obtain c3 where n3: "(n3, c3) \<in> set (ms number_re ((b \<and> n1 = 0) \<and> n2 = 0) (drop n2 (drop n1 s)))"
    and cg: "cg = c3 @ [(2, take n3 (drop n2 (drop n1 s)))]"
    unfolding in_ms_Grp by blast
  from number_re_sound[OF n3] have c3: "c3 = []" by simp
  have c: "c = [(1, take n1 s), (2, take n3 (drop n2 (drop n1 s)))]"
    unfolding c0 c1 cm c2 cg c3 by simp
  define lab where "lab = take n1 s"
  define sep where "sep = take n2 (drop n1 s)"
  define val where "val = take n3 (drop n2 (drop n1 s))"
  define post where "post = drop n3 (drop n2 (drop n1 s))"
  have s: "s = lab @ sep @ val @ post"
    unfolding lab_def sep_def val_def post_def by (simp del: drop_drop)
  have l1: "\<forall>x \<in> set lab. \<not> is_separator x"
    unfolding lab_def using take_takeWhile_all[OF n1(2)] .
  have l2: "\<forall>x \<in> set sep. is_separator x"
    unfolding sep_def using take_takeWhile_all[OF n2(2)] .
  have "n1 \<le> length s" using n1(2) length_takeWhile_le[of _ s] by (meson le_trans)
  with n1(1) have l3: "lab \<noteq> []" unfolding lab_def by auto
  have "n2 \<le> length (drop n1 s)" using n2(2) length_takeWhile_le[of _ "drop n1 s"] by (meson le_trans)
  with n2(1) have l4: "sep \<noteq> []" unfolding sep_def by auto
  from number_re_sound[OF n3] have nn: "drop n2 (drop n1 s) \<noteq> []" "0 < n3" "isdecimal_chr (hd (drop n2 (drop n1 s)))"
    by auto
  then have l5: "val \<noteq> []" "isdecimal_chr (hd val)" unfolding val_def by (auto simp: hd_take)
  show ?thesis using s c l1 l2 l3 l4 l5 unfolding lab_def[symmetric] val_def[symmetric] by blast
qed

lemma findall_pattern1_sound:
  assumes "(label, val) \<in> set (findall pattern1 t)"
  shows "\<exists>pre sep post. t = pre @ label @ sep @ val @ post
           \<and> label \<noteq> [] \<and> (\<forall>x \<in> set label. \<not> is_separator x)
           \<and> sep \<noteq> [] \<and> (\<forall>x \<in> set sep. is_separator x)
           \<and> val \<noteq> [] \<and> isdecimal_chr (hd val)"
proof -
  from assms obtain c where c: "c \<in> set (findall_from pattern1 True t)"
    and k: "label = group_str c 1" and v: "val = group_str c 2"
    unfolding findall_def by auto
  from findall_from_sound[OF c] obtain pre s n b' where
    t: "t = pre @ s" and m: "(n, c) \<in> set (ms pattern1 b' s)" by blast
  from pattern1_sound[OF m] obtain lab sep vl post where
    s: "s = lab @ sep @ vl @ post" and cc: "c = [(1, lab), (2, vl)]"
    and p: "lab \<noteq> []" "\<forall>x \<in> set lab. \<not> is_separator x" "sep \<noteq> []" "\<forall>x \<in> set sep. is_separator x"
      "vl \<noteq> []" "isdecimal_chr (hd vl)" by blast
  have "label = lab" "val = vl" unfolding k v cc by (simp_all add: group_str_def group_def)
  with t s p show ?thesis by blast
qed

lemma ms_Seq_first:
  assumes "ms p b s = (n1, c1) # r1" "ms q (b \<and> n1 = 0) (drop n1 s) = (n2, c2) # r2"
  shows "\<exists>r. ms (Seq p q) b s = (n1 + n2, c1 @ c2) # r"
  using assms by simp

lemma ms_Rep_first:
  assumes "k \<le> length (takeWhile (atom_ok a) s)"
  shows "\<exists>r. ms (Rep k a) b s = (length (takeWhile (atom_ok a) s), []) # r"
  using assms by simp

lemma ms_Grp_first:
  assumes "ms p b s = (n, c) # r"
  shows "\<exists>r'. ms (Grp g p) b s = (n, c @ [(g, take n s)]) # r'"
  using assms by simp

lemma takeWhile_run:
  assumes "\<forall>x \<in> set xs. P x" "ys = [] \<or> \<not> P (hd ys)"
  shows "takeWhile P (xs @ ys) = xs"
  using assms by (cases ys) (auto simp: takeWhile_append2)

lemma number_re_digits:
  assumes "ds \<noteq> []" "\<forall>x \<in> set ds. isdecimal_chr x"
  shows "\<exists>r. ms number_re b ds = (length ds, []) # r"
proof -
  have tw: "takeWhile isdecimal_chr ds = ds" using assms(2) by simp
  have 1: "\<exists>r. ms (Rep 1 (OneOf [Digit])) b ds = (length ds, []) # r"
    using ms_Rep_first[of 1 "OneOf [Digit]" ds b] assms(1) unfolding atom_ok_digit tw
    by (cases ds) auto
  have 2: "ms (Seq (Opt (Seq (Str [46]) (Rep 1 (OneOf [Digit]))))
            (Opt (Alt (Str [37]) (Alt (Str [20214]) (Alt (Str [20870])
                 (Alt (Str [20154]) (Str [22238]))))))) (b \<and> length ds = 0) (drop (length ds) ds) = [(0, [])]"
    by (simp add: ms_Seq_eval del: ms.simps(3))
  from 1 obtain r where "ms (Rep 1 (OneOf [Digit])) b ds = (length ds, []) # r" by blast
  from ms_Seq_first[OF this 2] show ?thesis unfolding number_re_def by simp
qed

lemma findall_pattern1_complete:
  assumes lab: "label \<noteq> []" "\<forall>x \<in> set label. \<not> is_separator x"
    and sep: "sep \<noteq> []" "\<forall>x \<in> set sep. is_separator x"
    and ds: "ds \<noteq> []" "\<forall>x \<in> set ds. isdecimal_chr x"
  shows "findall pattern1 (label @ sep @ ds) = [(label, ds)]"
proof -
  define s where "s = label @ sep @ ds"
  have hs: "is_separator (hd (sep @ ds))" using sep by (cases sep) auto
  have hd: "\<not> is_separator (hd ds)" using ds decimal_not_separator by (cases ds) auto
  have t1: "takeWhile (\<lambda>c. \<not> is_separator c) s = label"
    unfolding s_def using lab(2) hs by (intro takeWhile_run) auto
  have t2: "takeWhile is_separator (sep @ ds) = sep"
    using sep(2) hd by (intro takeWhile_run) auto
  have d1: "drop (length label) s = sep @ ds" unfolding s_def by simp
  obtain r1 where 1: "ms (Rep 1 (NoneOf [Space, Lit 58, Lit 65306])) True s = (length label, []) # r1"
    using ms_Rep_first[of 1 "NoneOf [Space, Lit 58, Lit 65306]" s True] lab(1)
    unfolding atom_ok_lab t1 by (cases label) auto
  from ms_Grp_first[OF 1, of 1] obtain r1' where
    g1: "ms (Grp 1 (Rep 1 (NoneOf [Space, Lit 58, Lit 65306]))) True s = (length label, [(1, label)]) # r1'"
    unfolding s_def by auto
  obtain r2 where 2: "ms (Rep 1 (OneOf [Lit 58, Space, Lit 65306])) False (sep @ ds) = (length sep, []) # r2"
    using ms_Rep_first[of 1 "OneOf [Lit 58, Space, Lit 65306]" "sep @ ds" False] sep(1)
    unfolding atom_ok_sep t2 by (cases sep) auto
  obtain r3 where 3: "ms number_re False ds = (length ds, []) # r3"
    using number_re_digits[OF ds] by blast
  from ms_Grp_first[OF 3, of 2] obtain r3' where
    g3: "ms (Grp 2 number_re) False ds = (length ds, [(2, ds)]) # r3'" by auto
  have "ms (Grp 2 number_re) (False \<and> length sep = 0) (drop (length sep) (sep @ ds)) = (length ds, [(2, ds)]) # r3'"
    using g3 by simp
  from ms_Seq_first[OF 2 this] obtain r23 where
    23: "ms (Seq (Rep 1 (OneOf [Lit 58, Space, Lit 65306])) (Grp 2 number_re)) False (sep @ ds)
           = (length sep + length ds, [(2, ds)]) # r23" by auto
  have "ms (Seq (Rep 1 (OneOf [Lit 58, Space, Lit 65306])) (Grp 2 number_re)) (True \<and> length label = 0)
           (drop (length label) s) = (length sep + length ds, [(2, ds)]) # r23"
    using 23 lab(1) unfolding d1 by simp
  from ms_Seq_first[OF g1 this] obtain r where
    m: "ms pattern1 True s = (length s, [(1, label), (2, ds)]) # r"
    unfolding pattern1_def s_def by auto
  have e: "ms pattern1 False [] = []" unfolding pattern1_def by (simp add: ms_Seq_eval del: ms.simps(3))
  obtain x s' where s': "s = x # s'" using lab(1) unfolding s_def by (cases label) auto
  have "findall_from pattern1 True s = [[(1, label), (2, ds)]]"
    unfolding findall_from.simps[of pattern1 True s] m
    by (simp add: s' e)
  then show ?thesis
    unfolding findall_def s_def[symmetric] by (simp add: group_str_def group_def)
qed

section \<open>Properties of the tables and of the status\<close>

lemma overview_row_hd: "hd (overview_row st item) = fst item"
  by (cases item) (auto simp: overview_row_def Let_def split: list.splits)

lemma overview_row_length: "length (overview_row st item) = 6"
  by (cases item) (auto simp: overview_row_def Let_def split: list.splits)



lemma map_fst_insort_key: "map fst (insort_key fst x xs) = insort (fst x) (map fst xs)"
  by (induction xs) auto

lemma map_fst_sort_key: "map fst (sort_key fst kd) = sort (map fst kd)"
  by (induction kd) (auto simp: map_fst_insort_key)

lemma overview_names:
  "map hd (tl (prepare_overview_data clock kd)) = sort (map fst kd)"
  unfolding prepare_overview_data_def
  by (simp add: comp_def overview_row_hd map_fst_sort_key[symmetric])


lemma str_nat_0: "str_nat 0 = [48]"
  by (simp add: str_nat.simps)

lemma str_nat_digit: "n < 10 \<Longrightarrow> str_nat n = [48 + n]"
  by (simp add: str_nat.simps)

lemma str_nat_2024: "str_nat 2024 = [50, 48, 50, 52]"
  by (simp add: str_nat.simps)

lemma digit_facts:
  "isdigit_chr 53" "isdecimal_chr 53" "digit_value 53 = 5"
  "isdigit_chr 178" "\<not> isdecimal_chr 178" "\<not> isdigit_chr 120"
  by (simp_all add: char_eval digit_value_def)

text \<open>
  The status of a sheet with a header and two data rows whose count cells are \<open>5\<close>
  and \<open>x\<close>: the second cell is skipped.
\<close>

lemma get_sync_status_scenario:
  "get_sync_status (Inr [overview_headers,
       [[97], [98], [53], [45], [45], [116]],
       [[99], [100], [120], [45], [45], [116]]])
   = \<lparr>last_sync = Some [116], channels_synced = 2, total_messages = 5\<rparr>"
  by (simp add: get_sync_status_def py_isdigit_def py_int_def int_max_str_digits_def digit_facts)

text \<open>
  When every count cell that passes \<open>isdigit()\<close> is made of decimal digits, no more
  of them than \<open>int\<close> converts, the sum is the sum over exactly these cells.
\<close>

lemma sum_counts_decimal:
  assumes "\<forall>row \<in> set rows. length row > 2 \<and> py_isdigit (row ! 2) \<longrightarrow>
             list_all isdecimal_chr (row ! 2) \<and> length (row ! 2) \<le> int_max_str_digits"
  shows "sum_counts rows =
     Inr (sum_list (map (\<lambda>row. foldl (\<lambda>acc c. 10 * acc + digit_value c) 0 (row ! 2))
            (filter (\<lambda>row. length row > 2 \<and> py_isdigit (row ! 2)) rows)))"
  using assms
proof (induction rows)
  case Nil
  then show ?case by simp
next
  case (Cons row rows)
  then have ih: "sum_counts rows =
     Inr (sum_list (map (\<lambda>row. foldl (\<lambda>acc c. 10 * acc + digit_value c) 0 (row ! 2))
            (filter (\<lambda>row. length row > 2 \<and> py_isdigit (row ! 2)) rows)))" by simp
  show ?case
  proof (cases "length row > 2 \<and> py_isdigit (row ! 2)")
    case True
    with Cons.prems have "list_all isdecimal_chr (row ! 2)" "length (row ! 2) \<le> int_max_str_digits"
      by simp_all
    moreover from True have "row ! 2 \<noteq> []" by (simp add: py_isdigit_def)
    ultimately have "py_int (row ! 2) = Inr (foldl (\<lambda>acc c. 10 * acc + digit_value c) 0 (row ! 2))"
      by (simp add: py_int_def)
    with True ih show ?thesis by simp
  next
    case False
    with ih show ?thesis by auto
  qed
qed




text \<open>
  The sync time is part of the table: a second later, the same records give another
  table.
\<close>

lemma overview_second_matters:
  "prepare_overview_data
      \<lparr>year = 2024, month = 1, day = 1, hour = 0, minute = 0, second = 0, microsecond = 0\<rparr>
      [([97], [])]
   \<noteq> prepare_overview_data
      \<lparr>year = 2024, month = 1, day = 1, hour = 0, minute = 0, second = 1, microsecond = 0\<rparr>
      [([97], [])]"
  by (simp add: prepare_overview_data_def overview_row_def strftime_def pad2_def str_nat_digit)

lemma py_int_too_long: "int_max_str_digits < length s \<Longrightarrow> py_int s = Inl ValueError"
  by (simp add: py_int_def)

section \<open>Properties of the client and of the synchronizer\<close>

lemma bind_run_simps [simp]:
  "bind_run None f = None"
  "bind_run (Some (Inl x)) f = Some (Inl x)"
  "bind_run (Some (Inr v)) f = f v"
  by (simp_all add: bind_run_def)

lemma parse_dropped:
  assumes "strip (case raw_text m of None \<Rightarrow> [] | Some t \<Rightarrow> t) = []"
    and "extract_kpi_values (case raw_text m of None \<Rightarrow> [] | Some t \<Rightarrow> t) = []"
  shows "parse_kpi_message e m ch = Inr None"
  using assms by (simp add: parse_kpi_message_def Let_def)

lemma kpi_messages_of_dropped:
  assumes "parse_kpi_message e m ch = Inr None"
  shows "kpi_messages_of e ch (before @ m # after) = kpi_messages_of e ch (before @ after)"
proof (induction before)
  case Nil
  show ?case using assms by (simp split: sum.splits)
next
  case (Cons a before)
  then show ?case by (simp split: sum.splits)
qed

lemma dict_set_key_in: "k \<in> fst ` set (dict_set d k v)"
proof -
  have "k \<in> set (map fst (dict_set d k v))"
    unfolding dict_set_keys by auto
  then show ?thesis by simp
qed

lemma dict_set_keys_mono: "fst ` set d \<subseteq> fst ` set (dict_set d k v)"
proof -
  have "set (map fst d) \<subseteq> set (map fst (dict_set d k v))"
    unfolding dict_set_keys by auto
  then show ?thesis by simp
qed

lemma specific_loop_keys_mono:
  "specific_loop e cm limit names kd st = Some (Inr (kd', st')) \<Longrightarrow> fst ` set kd \<subseteq> fst ` set kd'"
proof (induction names arbitrary: kd st)
  case Nil
  then show ?case by simp
next
  case (Cons name names)
  show ?case
  proof (cases "cm name")
    case None
    with Cons.prems have "specific_loop e cm limit names kd (st\<lparr>errors := errors st + 1\<rparr>) = Some (Inr (kd', st'))"
      by simp
    from Cons.IH[OF this] show ?thesis .
  next
    case (Some channel)
    with Cons.prems obtain messages where
      g: "get_kpi_data_from_channel e channel limit = Some (Inr messages)"
      and r: "specific_loop e cm limit names
                 (dict_set kd (or_else (extract_person_name name) name) messages)
                 (st\<lparr>channels_processed := channels_processed st + 1\<rparr>) = Some (Inr (kd', st'))"
      by (auto simp: bind_run_def split: option.splits sum.splits)
    from Cons.IH[OF r] dict_set_keys_mono[of kd] show ?thesis by blast
  qed
qed

lemma specific_loop_key:
  "specific_loop e cm limit names kd st = Some (Inr (kd', st')) \<Longrightarrow> name \<in> set names
     \<Longrightarrow> cm name \<noteq> None \<Longrightarrow> or_else (extract_person_name name) name \<in> fst ` set kd'"
proof (induction names arbitrary: kd st)
  case Nil
  then show ?case by simp
next
  case (Cons n names)
  show ?case
  proof (cases "cm n")
    case None
    with Cons.prems have r: "specific_loop e cm limit names kd (st\<lparr>errors := errors st + 1\<rparr>) = Some (Inr (kd', st'))"
      and "name \<in> set names" by auto
    from Cons.IH[OF r this(2) Cons.prems(3)] show ?thesis .
  next
    case (Some channel)
    with Cons.prems(1) obtain messages where
      r: "specific_loop e cm limit names
                 (dict_set kd (or_else (extract_person_name n) n) messages)
                 (st\<lparr>channels_processed := channels_processed st + 1\<rparr>) = Some (Inr (kd', st'))"
      by (auto simp: bind_run_def split: option.splits sum.splits)
    show ?thesis
    proof (cases "name = n")
      case True
      from specific_loop_keys_mono[OF r] dict_set_key_in[of "or_else (extract_person_name n) n" kd messages]
      show ?thesis unfolding True by blast
    next
      case False
      with Cons.prems(2) have "name \<in> set names" by simp
      from Cons.IH[OF r this Cons.prems(3)] show ?thesis .
    qed
  qed
qed

lemma no_kpi_facts:
  "\<not> isspace_chr 97" "\<not> isdecimal_chr 97" "isspace_chr 32" "\<not> isdecimal_chr 32"
  by (simp_all add: char_eval)

lemma extract_kpi_values_blank: "extract_kpi_values [32] = []"
  by (simp add: extract_kpi_values_def patterns_def add_matches_def re_eval no_kpi_facts
        del: ms.simps(3))

lemma extract_kpi_values_letter: "extract_kpi_values [97] = []"
  by (simp add: extract_kpi_values_def patterns_def add_matches_def re_eval no_kpi_facts
        del: ms.simps(3))

lemma extract_kpi_values_Nil: "extract_kpi_values [] = []"
  by (simp add: extract_kpi_values_def patterns_def add_matches_def re_eval
        del: ms.simps(3))

lemma strip_blank: "strip [32] = []" "strip [97] = [97]" "strip [] = []"
  by (simp_all add: strip_def no_kpi_facts)

lemma get_channel_messages_fail_first:
  assumes "0 < limit" "conversations_history e ch (min limit 200) None = Inl SlackApiError"
  shows "get_channel_messages e ch limit = Some (Inr [])"
  unfolding get_channel_messages_def
  by (subst messages_loop.simps) (simp add: assms)

lemma get_kpi_data_fail_first:
  assumes "0 < limit" "conversations_history e (ch_id B) (min limit 200) None = Inl SlackApiError"
  shows "get_kpi_data_from_channel e B limit = Some (Inr [])"
  unfolding get_kpi_data_from_channel_def get_channel_messages_fail_first[OF assms]
  by simp

lemma get_channel_messages_one_page:
  assumes "0 < limit" "conversations_history e ch (min limit 200) None = Inr (page, next_cursor)"
    "\<not> truthy next_cursor"
  shows "get_channel_messages e ch limit = Some (Inr (take (nat limit) page))"
  unfolding get_channel_messages_def
  by (subst messages_loop.simps) (simp add: assms)

lemma get_all_channels_one_page:
  assumes "conversations_list e None = Inr (page, next_cursor)" "\<not> truthy next_cursor"
  shows "get_all_channels e = Some (Inr page)"
  unfolding get_all_channels_def
  by (subst channels_loop.simps) (simp add: assms)

lemma detail_loop_all_ok:
  assumes "\<forall>name data w. fst (write_data sh name data w)"
  shows "fst (detail_loop sh kd st w)
           = st\<lparr>messages_synced := messages_synced st + sum_list (map (\<lambda>(p, m). length m) kd)\<rparr>"
proof (induction kd arbitrary: st w)
  case Nil
  then show ?case by simp
next
  case (Cons item kd)
  obtain p m where item: "item = (p, m)" by (cases item)
  show ?case
  proof (cases "m = []")
    case True
    then show ?thesis unfolding item using Cons.IH by simp
  next
    case False
    obtain cr w1 where e1: "ensure_sheet_exists sh (DETAIL_SHEET_PREFIX @ p) w = (cr, w1)"
      by (cases "ensure_sheet_exists sh (DETAIL_SHEET_PREFIX @ p) w")
    obtain ok w2 where e2: "write_data sh (DETAIL_SHEET_PREFIX @ p) (prepare_detail_data p m) w1 = (ok, w2)"
      by (cases "write_data sh (DETAIL_SHEET_PREFIX @ p) (prepare_detail_data p m) w1")
    from assms e2 have ok: "ok" by (metis fst_conv)
    show ?thesis unfolding item
      using False e1 e2 ok Cons.IH[of "st\<lparr>messages_synced := messages_synced st + length m\<rparr>" w2]
      by simp
  qed
qed

lemma person_name_nonempty: "extract_person_name n = Some p \<Longrightarrow> p \<noteq> []"
  by (simp add: extract_person_name_Some_iff)

lemma sync_three_channels:
  assumes channels: "get_individual_channels e = Some (Inr [A, B, C])"
    and names: "extract_person_name (ch_name A) = Some a"
      "extract_person_name (ch_name B) = Some b"
      "extract_person_name (ch_name C) = Some c" "distinct [a, b, c]"
    and fetch_A: "get_kpi_data_from_channel e A limit = Some (Inr ra)"
    and fetch_C: "get_kpi_data_from_channel e C limit = Some (Inr rc)"
    and fetch_B: "0 < limit" "conversations_history e (ch_id B) (min limit 200) None = Inl SlackApiError"
    and writes: "\<forall>name data w. fst (write_data sh name data w)"
  shows "get_all_individual_kpi_data e limit = Some (Inr [(a, ra), (b, []), (c, rc)])"
    and "map_option (map_sum id fst) (sync_all_individual_kpi e sh limit details w)
           = Some (Inr \<lparr>channels_processed = 3,
                        messages_synced = (if details then length ra + length rc else 0),
                        errors = 0\<rparr>)"
proof -
  have ne: "a \<noteq> []" "b \<noteq> []" "c \<noteq> []"
    using names(1-3) by (auto dest: person_name_nonempty)
  have fb: "get_kpi_data_from_channel e B limit = Some (Inr [])"
    using fetch_B by (rule get_kpi_data_fail_first)
  show all: "get_all_individual_kpi_data e limit = Some (Inr [(a, ra), (b, []), (c, rc)])"
    unfolding get_all_individual_kpi_data_def channels
    using names ne fetch_A fetch_C fb by simp
  define kd where "kd = [(a, ra), (b, [] :: KPIMessage list), (c, rc)]"
  define st0 where "st0 = \<lparr>channels_processed = 0, messages_synced = 0, errors = 0\<rparr>"
  obtain cr w1 where e1: "ensure_sheet_exists sh OVERVIEW_SHEET w = (cr, w1)"
    by (cases "ensure_sheet_exists sh OVERVIEW_SHEET w")
  obtain ok w2 where e2: "write_data sh OVERVIEW_SHEET (prepare_overview_data (now sh w) kd) w1 = (ok, w2)"
    by (cases "write_data sh OVERVIEW_SHEET (prepare_overview_data (now sh w) kd) w1")
  from writes e2 have ok: "ok" by (metis fst_conv)
  have dl: "fst (detail_loop sh kd (st0\<lparr>channels_processed := 3\<rparr>) w2)
      = \<lparr>channels_processed = 3, messages_synced = length ra + length rc, errors = 0\<rparr>"
    unfolding detail_loop_all_ok[OF writes] by (simp add: kd_def st0_def)
  have "sync_all_individual_kpi e sh limit details w
      = Some (Inr (if details then detail_loop sh kd (st0\<lparr>channels_processed := 3\<rparr>) w2
                   else (st0\<lparr>channels_processed := 3\<rparr>, w2)))"
  proof -
    have all': "get_all_individual_kpi_data e limit = Some (Inr kd)"
      unfolding kd_def by (rule all)
    have k: "kd \<noteq> []" "length kd = 3" by (simp_all add: kd_def)
    show ?thesis
      unfolding sync_all_individual_kpi_def all'
      using e1 e2 ok k by (simp add: st0_def Let_def)
  qed
  then show "map_option (map_sum id fst) (sync_all_individual_kpi e sh limit details w)
           = Some (Inr \<lparr>channels_processed = 3,
                        messages_synced = (if details then length ra + length rc else 0),
                        errors = 0\<rparr>)"
    using dl by (simp add: st0_def)
qed

lemma truthy_None [simp]: "\<not> truthy None"
  by (simp add: truthy_def)

lemma scenario_names:
  "extract_person_name (ch_name chan_a) = Some [97]"
  "extract_person_name (ch_name chan_b) = Some [98]"
  "extract_person_name (ch_name chan_c) = Some [99]"
  by (simp_all add: extract_person_name_eq individual_prefix_def chan_a_def chan_b_def chan_c_def)

lemma scenario_channels:
  "get_individual_channels scenario_env = Some (Inr [chan_a, chan_b, chan_c])"
proof -
  have 1: "get_all_channels scenario_env = Some (Inr [chan_a, chan_b, chan_c])"
    by (rule get_all_channels_one_page[where next_cursor = None]) (simp_all add: scenario_env_def)
  have 2: "re_match INDIVIDUAL_CHANNEL_PATTERN (ch_name ch) \<noteq> None"
    if "extract_person_name (ch_name ch) = Some p" for ch :: ChannelInfo and p
    using that by (auto simp: extract_person_name_def split: option.splits)
  from 2 scenario_names have "re_match INDIVIDUAL_CHANNEL_PATTERN (ch_name chan_a) \<noteq> None"
    "re_match INDIVIDUAL_CHANNEL_PATTERN (ch_name chan_b) \<noteq> None"
    "re_match INDIVIDUAL_CHANNEL_PATTERN (ch_name chan_c) \<noteq> None" by blast+
  then show ?thesis unfolding get_individual_channels_def 1 by simp
qed

lemma scenario_parse:
  "parse_kpi_message scenario_env message_a ch
     = Inr (Some (record_of ch (or_else (extract_person_name (ch_name ch)) (ch_name ch))))"
  by (simp add: parse_kpi_message_def message_a_def extract_kpi_values_letter strip_blank
        scenario_env_def record_of_def)

lemma scenario_fetch:
  assumes "ch_id ch \<noteq> [66]"
  shows "get_kpi_data_from_channel scenario_env ch 100
     = Some (Inr [record_of ch (or_else (extract_person_name (ch_name ch)) (ch_name ch))])"
proof -
  have "get_channel_messages scenario_env (ch_id ch) 100 = Some (Inr (take (nat 100) [message_a]))"
    by (rule get_channel_messages_one_page[where next_cursor = None])
       (simp_all add: scenario_env_def assms)
  then show ?thesis
    unfolding get_kpi_data_from_channel_def by (simp add: scenario_parse)
qed

lemma scenario_fetch_a:
  "get_kpi_data_from_channel scenario_env chan_a 100 = Some (Inr [record_of chan_a [97]])"
  using scenario_fetch[of chan_a] scenario_names(1) by (simp add: or_else_def chan_a_def)

lemma scenario_fetch_c:
  "get_kpi_data_from_channel scenario_env chan_c 100 = Some (Inr [record_of chan_c [99]])"
  using scenario_fetch[of chan_c] scenario_names(3) by (simp add: or_else_def chan_c_def)

lemma scenario_fetch_b:
  "conversations_history scenario_env (ch_id chan_b) (min 100 200) None = Inl SlackApiError"
  by (simp add: scenario_env_def chan_b_def)

lemma scenario_writes: "\<forall>name data w. fst (write_data scenario_sheets name data w)"
  by (simp add: scenario_sheets_def)

text \<open>
  The scenario without detail sheets: the run returns, and the one write it makes is the
  overview of the three persons, the second with no record.
\<close>

lemma scenario_run:
  "sync_all_individual_kpi scenario_env scenario_sheets 100 False []
     = Some (Inr (\<lparr>channels_processed = 3, messages_synced = 0, errors = 0\<rparr>,
                  [(OVERVIEW_SHEET,
                    prepare_overview_data scenario_clock
                      [([97], [record_of chan_a [97]]), ([98], []), ([99], [record_of chan_c [99]])])]))"
proof -
  have a: "get_all_individual_kpi_data scenario_env 100
      = Some (Inr [([97], [record_of chan_a [97]]), ([98], []), ([99], [record_of chan_c [99]])])"
    by (rule sync_three_channels(1)[OF scenario_channels scenario_names _ scenario_fetch_a
          scenario_fetch_c _ scenario_fetch_b scenario_writes]) simp_all
  show ?thesis
    unfolding sync_all_individual_kpi_def a
    by (simp add: scenario_sheets_def Let_def)
qed

section \<open>Claims\<close>

text \<open>
  C2 (as the claim states it): every string that starts with the prefix and has at least
  one further character is accepted, and the whole rest is returned. A line feed breaks
  this: \<open>.\<close> does not match it, and \<open>$\<close> matches before a final one.
\<close>

theorem extract_person_name_counterexample:
  "prefix individual_prefix [20491, 20154, 95, 97, 10, 98]
   \<and> extract_person_name [20491, 20154, 95, 97, 10, 98] = None
   \<and> extract_person_name [20491, 20154, 95, 97, 10] = Some [97]"
  by (simp add: extract_person_name_eq individual_prefix_def)

text \<open>
  C2 (amended): \<open>extract_person_name n\<close> returns \<open>r\<close> exactly when \<open>r\<close> is not empty,
  has no line feed, and \<open>n\<close> is the prefix followed by \<open>r\<close>, or by \<open>r\<close> and one final
  line feed; on every other string, the empty string and the bare prefix among them, it
  returns None. The function is total: it raises on no string. So on channel names
  without a line feed the classifier accepts exactly the prefix followed by a non-empty
  rest and returns that whole rest.
\<close>

theorem extract_person_name_spec:
  "(extract_person_name n = Some r \<longleftrightarrow>
      r \<noteq> [] \<and> 10 \<notin> set r \<and> (n = individual_prefix @ r \<or> n = individual_prefix @ r @ [10]))
   \<and> (10 \<notin> set n \<longrightarrow>
        extract_person_name n = (if prefix individual_prefix n \<and> drop 3 n \<noteq> [] then Some (drop 3 n) else None))
   \<and> extract_person_name [] = None
   \<and> extract_person_name individual_prefix = None"
proof -
  have 1: "extract_person_name n = Some r \<longleftrightarrow>
      r \<noteq> [] \<and> 10 \<notin> set r \<and> (n = individual_prefix @ r \<or> n = individual_prefix @ r @ [10])"
    by (rule extract_person_name_Some_iff)
  have 2: "extract_person_name n = (if prefix individual_prefix n \<and> drop 3 n \<noteq> [] then Some (drop 3 n) else None)"
    if "10 \<notin> set n"
  proof -
    have "10 \<notin> set (drop 3 n)" using that in_set_dropD by fast
    then have tw: "takeWhile (\<lambda>c. c \<noteq> 10) (drop 3 n) = drop 3 n"
      by (rule takeWhile_no_lf(1))
    show ?thesis unfolding extract_person_name_eq Let_def tw by auto
  qed
  have 3: "extract_person_name [] = None" "extract_person_name individual_prefix = None"
    by (simp_all add: extract_person_name_eq individual_prefix_def)
  from 1 2 3 show ?thesis by blast
qed

theorem extract_person_name_spec_witness:
  "10 \<notin> set [20491, 20154, 95, 30000, 20013 :: nat]
   \<and> extract_person_name [20491, 20154, 95, 30000, 20013] = Some [30000, 20013]"
  using extract_person_name_spec [of "[20491, 20154, 95, 30000, 20013]" "[30000, 20013]"]
  by (simp add: individual_prefix_def)

text \<open>
  C3 (as the claim states it): without a colon between the word and the number the first
  pattern extracts nothing. The text \<open>abc 100\<close> has no colon, and the pair is extracted.
\<close>

theorem pattern1_colon_counterexample:
  "58 \<notin> set [97, 98, 99, 32, 49, 48, 48 :: nat] \<and> 65306 \<notin> set [97, 98, 99, 32, 49, 48, 48 :: nat]
   \<and> findall pattern1 [97, 98, 99, 32, 49, 48, 48] = [([97, 98, 99], [49, 48, 48])]"
proof -
  have c: "\<not> isspace_chr 97" "\<not> isspace_chr 98" "\<not> isspace_chr 99" "isspace_chr 32"
    "\<not> isspace_chr 49" "\<not> isspace_chr 48" "isdecimal_chr 49" "isdecimal_chr 48"
    "\<not> isdecimal_chr 97" "\<not> isdecimal_chr 98" "\<not> isdecimal_chr 99" "\<not> isdecimal_chr 32"
    by (simp_all add: char_eval)
  show ?thesis by (simp add: re_eval c del: ms.simps(3))
qed

text \<open>
  C3 (amended): the first pattern extracts a pair (label, value) only where the label, a
  non-empty run of characters that are no separators, is followed by a non-empty run of
  separators, each one a colon, a full-width colon or a whitespace character, and then
  by the value, which starts with a decimal digit. Whitespace alone is a separator: a
  word, whitespace and a run of digits give the pair.
\<close>

theorem pattern1_separator:
  "((label, val) \<in> set (findall pattern1 t) \<longrightarrow>
      (\<exists>pre sep post. t = pre @ label @ sep @ val @ post
         \<and> label \<noteq> [] \<and> (\<forall>x \<in> set label. \<not> is_separator x)
         \<and> sep \<noteq> [] \<and> (\<forall>x \<in> set sep. is_separator x)
         \<and> val \<noteq> [] \<and> isdecimal_chr (hd val)))
   \<and> (w \<noteq> [] \<and> (\<forall>x \<in> set w. \<not> is_separator x)
        \<and> sp \<noteq> [] \<and> (\<forall>x \<in> set sp. isspace_chr x)
        \<and> ds \<noteq> [] \<and> (\<forall>x \<in> set ds. isdecimal_chr x)
      \<longrightarrow> findall pattern1 (w @ sp @ ds) = [(w, ds)])"
proof (intro conjI impI)
  assume "(label, val) \<in> set (findall pattern1 t)"
  then show "\<exists>pre sep post. t = pre @ label @ sep @ val @ post
         \<and> label \<noteq> [] \<and> (\<forall>x \<in> set label. \<not> is_separator x)
         \<and> sep \<noteq> [] \<and> (\<forall>x \<in> set sep. is_separator x)
         \<and> val \<noteq> [] \<and> isdecimal_chr (hd val)"
    by (rule findall_pattern1_sound)
next
  assume a: "w \<noteq> [] \<and> (\<forall>x \<in> set w. \<not> is_separator x)
        \<and> sp \<noteq> [] \<and> (\<forall>x \<in> set sp. isspace_chr x)
        \<and> ds \<noteq> [] \<and> (\<forall>x \<in> set ds. isdecimal_chr x)"
  then have "\<forall>x \<in> set sp. is_separator x" by (simp add: is_separator_def)
  with a show "findall pattern1 (w @ sp @ ds) = [(w, ds)]"
    by (intro findall_pattern1_complete) simp_all
qed

theorem pattern1_separator_witness:
  "findall pattern1 [120, 9, 55] = [([120], [55])]
   \<and> ([120], [55]) \<in> set (findall pattern1 [120, 9, 55])
   \<and> (\<exists>pre sep post. [120, 9, 55] = pre @ [120] @ sep @ [55] @ post
         \<and> sep \<noteq> [] \<and> (\<forall>x \<in> set sep. is_separator x))"
proof -
  have h: "[120] \<noteq> [] \<and> (\<forall>x \<in> set [120]. \<not> is_separator x)
        \<and> [9] \<noteq> [] \<and> (\<forall>x \<in> set [9]. isspace_chr x)
        \<and> [55] \<noteq> [] \<and> (\<forall>x \<in> set [55]. isdecimal_chr x)"
    by (simp add: is_separator_def char_eval)
  from pattern1_separator[of "[120]" "[55]" "[120, 9, 55]" "[120]" "[9]" "[55]"] h
  have 1: "findall pattern1 [120, 9, 55] = [([120], [55])]" by simp
  then have 2: "([120], [55]) \<in> set (findall pattern1 [120, 9, 55])" by simp
  with pattern1_separator[of "[120]" "[55]" "[120, 9, 55]" "[120]" "[9]" "[55]"]
  have "\<exists>pre sep post. [120, 9, 55] = pre @ [120] @ sep @ [55] @ post
         \<and> [120] \<noteq> [] \<and> (\<forall>x \<in> set [120]. \<not> is_separator x)
         \<and> sep \<noteq> [] \<and> (\<forall>x \<in> set sep. is_separator x)
         \<and> [55] \<noteq> [] \<and> isdecimal_chr (hd [55])" by blast
  then have "\<exists>pre sep post. [120, 9, 55] = pre @ [120] @ sep @ [55] @ post
         \<and> sep \<noteq> [] \<and> (\<forall>x \<in> set sep. is_separator x)" by blast
  with 1 2 show ?thesis by blast
qed

text \<open>
  C4: \<open>extract_kpi_values\<close> is a total function, so it returns on every text and raises
  on none. Its result is a finite mapping (a list of pairs with distinct keys). Every
  value is the text captured by the second group of a match of one of the three patterns
  with surrounding whitespace removed, a contiguous part of the input text: a string,
  with no conversion to a number.
\<close>

theorem extract_kpi_values_verbatim:
  "distinct (map fst (extract_kpi_values t))
   \<and> (\<forall>(k, v) \<in> set (extract_kpi_values t).
        sublist v t
        \<and> (\<exists>p \<in> set patterns. \<exists>(k0, v0) \<in> set (findall p t).
              k = strip k0 \<and> v = strip v0 \<and> sublist v0 t))"
proof -
  have "sublist v t \<and> (\<exists>p \<in> set patterns. \<exists>(k0, v0) \<in> set (findall p t).
              k = strip k0 \<and> v = strip v0 \<and> sublist v0 t)"
    if "(k, v) \<in> set (extract_kpi_values t)" for k v
  proof -
    from extract_kpi_values_entries[OF that] obtain p k0 v0 where
      p: "p \<in> set patterns" and m: "(k0, v0) \<in> set (findall p t)" and kv: "k = strip k0" "v = strip v0"
      by blast
    from findall_sound[OF m] have s0: "sublist v0 t" by simp
    have "sublist v v0" unfolding kv by (rule sublist_strip)
    with s0 have "sublist v t" using sublist_order.order.trans by blast
    with p m kv s0 show ?thesis by blast
  qed
  then show ?thesis using extract_kpi_values_distinct by blast
qed

theorem extract_kpi_values_verbatim_witness:
  "extract_kpi_values [26550, 38651, 53, 48, 20214] = [([26550, 38651], [53, 48, 20214])]
   \<and> sublist [53, 48, 20214] [26550, 38651, 53, 48, 20214 :: nat]"
proof -
  have c: "\<not> isspace_chr 26550" "\<not> isspace_chr 38651" "\<not> isspace_chr 53"
    "\<not> isspace_chr 48" "\<not> isspace_chr 20214" "\<not> isdecimal_chr 26550"
    "\<not> isdecimal_chr 38651" "isdecimal_chr 53" "isdecimal_chr 48" "\<not> isdecimal_chr 20214"
    by (simp_all add: char_eval)
  have e: "extract_kpi_values [26550, 38651, 53, 48, 20214] = [([26550, 38651], [53, 48, 20214])]"
    by (simp add: extract_kpi_values_def patterns_def add_matches_def strip_def re_eval c
          del: ms.simps(3))
  from extract_kpi_values_verbatim[of "[26550, 38651, 53, 48, 20214]"]
  show ?thesis unfolding e by simp
qed

text \<open>
  C6: the overview table starts with the header row of six columns and has one data row
  for every person of the record mapping; the first cells of the data rows are the
  person identifiers in ascending order of their code points. When the identifiers are
  distinct, as the keys of a mapping are, no two rows are of one person.
\<close>

theorem overview_rows_sorted:
  "hd (prepare_overview_data clock kd) = overview_headers
   \<and> length overview_headers = 6
   \<and> length (tl (prepare_overview_data clock kd)) = length kd
   \<and> map hd (tl (prepare_overview_data clock kd)) = sort (map fst kd)
   \<and> sorted (map hd (tl (prepare_overview_data clock kd)))
   \<and> set (map hd (tl (prepare_overview_data clock kd))) = fst ` set kd
   \<and> (distinct (map fst kd) \<longrightarrow> distinct (map hd (tl (prepare_overview_data clock kd))))"
proof -
  have 1: "map hd (tl (prepare_overview_data clock kd)) = sort (map fst kd)"
    by (rule overview_names)
  have 2: "hd (prepare_overview_data clock kd) = overview_headers"
    "length (tl (prepare_overview_data clock kd)) = length kd"
    by (simp_all add: prepare_overview_data_def)
  have 3: "length overview_headers = 6" by (simp add: overview_headers_def)
  show ?thesis unfolding 1 using 2 3 by simp
qed

theorem overview_rows_sorted_witness:
  "distinct (map fst [([30000, 20013], []), ([37428, 26408], []), ([20304, 34276] :: ustr, [] :: KPIMessage list)])
   \<and> map hd (tl (prepare_overview_data
         \<lparr>year = 2024, month = 1, day = 1, hour = 0, minute = 0, second = 0, microsecond = 0\<rparr>
         [([30000, 20013], []), ([37428, 26408], []), ([20304, 34276], [])]))
       = [[20304, 34276], [30000, 20013], [37428, 26408]]"
  using overview_rows_sorted
    [of "\<lparr>year = 2024, month = 1, day = 1, hour = 0, minute = 0, second = 0, microsecond = 0\<rparr>"
        "[([30000, 20013], []), ([37428, 26408], []), ([20304, 34276], [])]"]
  by simp

text \<open>
  C10: a person whose record sequence is empty has a row in the overview: the name, the
  channel name rebuilt from it, the count \<open>0\<close>, a hyphen for the latest timestamp, a
  hyphen for the latest text, and the sync time.
\<close>

theorem overview_empty_person_row:
  "(person, []) \<in> set kd \<Longrightarrow>
     [person, individual_prefix @ person, [48], [45], [45], strftime clock]
       \<in> set (tl (prepare_overview_data clock kd))"
proof -
  assume "(person, []) \<in> set kd"
  then have "overview_row (strftime clock) (person, []) \<in> set (tl (prepare_overview_data clock kd))"
    unfolding prepare_overview_data_def by simp
  then show ?thesis by (simp add: overview_row_def str_nat_0)
qed

theorem overview_empty_person_row_witness:
  "([97], []) \<in> set [([97], [] :: KPIMessage list)]
   \<and> [[97], [20491, 20154, 95, 97], [48], [45], [45],
        [50, 48, 50, 52, 45, 48, 49, 45, 48, 49, 32, 48, 48, 58, 48, 48, 58, 48, 48]]
       \<in> set (tl (prepare_overview_data
            \<lparr>year = 2024, month = 1, day = 1, hour = 0, minute = 0, second = 0, microsecond = 0\<rparr>
            [([97], [])]))"
  using overview_empty_person_row
    [of "[97]" "[([97], [])]"
        "\<lparr>year = 2024, month = 1, day = 1, hour = 0, minute = 0, second = 0, microsecond = 0\<rparr>"]
  by (simp add: individual_prefix_def strftime_def pad2_def str_nat_digit str_nat_2024)



text \<open>
  C8: the guard of the sum is \<open>isdigit()\<close>, and \<open>int\<close> reads fewer characters than
  \<open>isdigit()\<close> accepts. A count cell that holds a superscript two (U+00B2) passes the
  guard, \<open>int\<close> raises ValueError, the handler of the \<open>try\<close> catches it, and the total
  of the whole sheet stays 0: the cell is not skipped, and the count 5 of the other row
  is lost.
\<close>

theorem get_sync_status_superscript:
  "get_sync_status (Inr [overview_headers,
       [[97], [98], [53], [45], [45], [116]],
       [[99], [100], [178], [45], [45], [116]]])
   = \<lparr>last_sync = Some [116], channels_synced = 2, total_messages = 0\<rparr>"
  by (simp add: get_sync_status_def py_isdigit_def py_int_def int_max_str_digits_def digit_facts)

text \<open>
  C5: a raw message whose text is empty or whitespace only, and from which no KPI value is
  extracted, is parsed to no record; and the records read from a channel's messages are
  the same with the message and without it, so no table built from them shows it.
\<close>

theorem empty_message_dropped:
  assumes "strip (case raw_text m of None \<Rightarrow> [] | Some t \<Rightarrow> t) = []"
    and "extract_kpi_values (case raw_text m of None \<Rightarrow> [] | Some t \<Rightarrow> t) = []"
  shows "parse_kpi_message e m ch = Inr None
         \<and> kpi_messages_of e ch (before @ m # after) = kpi_messages_of e ch (before @ after)"
proof -
  have 1: "parse_kpi_message e m ch = Inr None"
    using assms by (rule parse_dropped)
  from kpi_messages_of_dropped[OF 1] 1 show ?thesis by simp
qed

theorem empty_message_dropped_witness:
  "strip (case raw_text \<lparr>raw_text = Some [32], raw_ts = None\<rparr> of None \<Rightarrow> [] | Some t \<Rightarrow> t) = []
   \<and> extract_kpi_values (case raw_text \<lparr>raw_text = Some [32], raw_ts = None\<rparr> of None \<Rightarrow> [] | Some t \<Rightarrow> t) = []
   \<and> parse_kpi_message scenario_env \<lparr>raw_text = Some [32], raw_ts = None\<rparr> chan_a = Inr None
   \<and> kpi_messages_of scenario_env chan_a [message_a, \<lparr>raw_text = Some [32], raw_ts = None\<rparr>, message_a]
       = Inr [record_of chan_a [97], record_of chan_a [97]]"
proof -
  have h: "strip (case raw_text \<lparr>raw_text = Some [32], raw_ts = None\<rparr> of None \<Rightarrow> [] | Some t \<Rightarrow> t) = []"
    "extract_kpi_values (case raw_text \<lparr>raw_text = Some [32], raw_ts = None\<rparr> of None \<Rightarrow> [] | Some t \<Rightarrow> t) = []"
    by (simp_all add: strip_blank extract_kpi_values_blank)
  have r: "kpi_messages_of scenario_env chan_a ([message_a] @ [message_a])
       = Inr [record_of chan_a [97], record_of chan_a [97]]"
    using scenario_names(1) by (simp add: scenario_parse or_else_def)
  from empty_message_dropped[OF h, of scenario_env chan_a "[message_a]" "[message_a]"] h r
  show ?thesis by simp
qed

text \<open>
  C9: when the name of a channel does not match the naming convention, the person
  identifier of a record parsed in it is the full channel name; and in the sync of an
  explicit list of names, the loop files the records of such a channel under its full
  name: the name is a key of the mapping the loop returns, and a loop over this one
  name sets the key to the records fetched.
\<close>

theorem channel_name_fallback:
  assumes "extract_person_name (ch_name ch) = None"
  shows "(parse_kpi_message e m ch = Inr (Some k) \<longrightarrow> user_name k = ch_name ch)
     \<and> (specific_loop e cm limit names kd st = Some (Inr (kd', st'))
          \<and> ch_name ch \<in> set names \<and> cm (ch_name ch) \<noteq> None
        \<longrightarrow> ch_name ch \<in> fst ` set kd')
     \<and> (cm (ch_name ch) = Some ch \<and> get_kpi_data_from_channel e ch limit = Some (Inr msgs)
        \<longrightarrow> specific_loop e cm limit [ch_name ch] kd st
              = Some (Inr (dict_set kd (ch_name ch) msgs,
                           st\<lparr>channels_processed := channels_processed st + 1\<rparr>)))"
proof (intro conjI impI)
  assume "parse_kpi_message e m ch = Inr (Some k)"
  then show "user_name k = ch_name ch"
    using assms
    by (auto simp: parse_kpi_message_def Let_def or_else_def split: if_splits sum.splits)
next
  assume a: "specific_loop e cm limit names kd st = Some (Inr (kd', st'))
          \<and> ch_name ch \<in> set names \<and> cm (ch_name ch) \<noteq> None"
  then have "or_else (extract_person_name (ch_name ch)) (ch_name ch) \<in> fst ` set kd'"
    using specific_loop_key[of e cm limit names kd st kd' st' "ch_name ch"] by blast
  then show "ch_name ch \<in> fst ` set kd'" using assms by (simp add: or_else_def)
next
  assume "cm (ch_name ch) = Some ch \<and> get_kpi_data_from_channel e ch limit = Some (Inr msgs)"
  then show "specific_loop e cm limit [ch_name ch] kd st
              = Some (Inr (dict_set kd (ch_name ch) msgs,
                           st\<lparr>channels_processed := channels_processed st + 1\<rparr>))"
    using assms by (simp add: or_else_def)
qed

theorem channel_name_fallback_witness:
  "extract_person_name (ch_name \<lparr>ch_id = [71], ch_name = [103], is_private = False\<rparr>) = None
   \<and> parse_kpi_message scenario_env message_a \<lparr>ch_id = [71], ch_name = [103], is_private = False\<rparr>
       = Inr (Some (record_of \<lparr>ch_id = [71], ch_name = [103], is_private = False\<rparr> [103]))
   \<and> user_name (record_of \<lparr>ch_id = [71], ch_name = [103], is_private = False\<rparr> [103]) = [103]
   \<and> specific_loop scenario_env
         [[103] \<mapsto> \<lparr>ch_id = [71], ch_name = [103], is_private = False\<rparr>] 100 [[103]] []
         \<lparr>channels_processed = 0, messages_synced = 0, errors = 0\<rparr>
       = Some (Inr ([([103], [record_of \<lparr>ch_id = [71], ch_name = [103], is_private = False\<rparr> [103]])],
                    \<lparr>channels_processed = 1, messages_synced = 0, errors = 0\<rparr>))"
proof -
  let ?g = "\<lparr>ch_id = [71], ch_name = [103], is_private = False\<rparr>"
  let ?st = "\<lparr>channels_processed = 0, messages_synced = 0, errors = 0\<rparr>"
  have n: "extract_person_name (ch_name ?g) = None"
    by (simp add: extract_person_name_eq individual_prefix_def)
  have p: "parse_kpi_message scenario_env message_a ?g = Inr (Some (record_of ?g [103]))"
    using n by (simp add: scenario_parse or_else_def)
  have f: "get_kpi_data_from_channel scenario_env ?g 100 = Some (Inr [record_of ?g [103]])"
    using scenario_fetch[of ?g] n by (simp add: or_else_def)
  have c: "[[103] \<mapsto> ?g] (ch_name ?g) = Some ?g" by simp
  from channel_name_fallback[OF n, of scenario_env message_a "record_of ?g [103]"
      "[[103] \<mapsto> ?g]" 100 "[[103]]" "[]" ?st _ _ "[record_of ?g [103]]"] p f c
  have "user_name (record_of ?g [103]) = ch_name ?g"
    and "specific_loop scenario_env [[103] \<mapsto> ?g] 100 [ch_name ?g] [] ?st
          = Some (Inr (dict_set [] (ch_name ?g) [record_of ?g [103]],
                       ?st\<lparr>channels_processed := channels_processed ?st + 1\<rparr>))"
    by blast+
  with n p show ?thesis by simp
qed

text \<open>
  C1 (as the claim states it): with three target channels of which the second fails to
  fetch, the result counts two channels and at least one error. In the scenario the
  history of the second channel raises \<open>SlackApiError\<close>; the client catches it and
  returns no message, and the run counts three channels and no error.
\<close>

theorem sync_partial_failure_counterexample:
  "conversations_history scenario_env (ch_id chan_b) (min 100 200) None = Inl SlackApiError
   \<and> map_option (map_sum id fst) (sync_all_individual_kpi scenario_env scenario_sheets 100 True [])
       = Some (Inr \<lparr>channels_processed = 3, messages_synced = 2, errors = 0\<rparr>)"
  using sync_three_channels(2)[OF scenario_channels scenario_names _ scenario_fetch_a
      scenario_fetch_c _ scenario_fetch_b scenario_writes, of True "[]"] scenario_fetch_b
  by (simp add: numeral_2_eq_2)

text \<open>
  C1 (amended): in a sync run over three individual channels A, B and C of three
  different persons, where the first request for the messages of B fails with a Slack
  API error, the fetches of A and of C return and every sheet write succeeds, the run
  returns: the failure of B aborts nothing. The person of B is kept with an empty
  record sequence beside the records of A and of C, and the result reports
  \<open>channels_processed = 3\<close> and \<open>errors = 0\<close>: the client catches the error of the
  fetch and the run counts it nowhere. \<open>messages_synced\<close> is the number of records
  of A and C, or 0 when no detail sheet is written.
\<close>

theorem sync_partial_failure:
  assumes "get_individual_channels e = Some (Inr [A, B, C])"
    and "extract_person_name (ch_name A) = Some a"
    and "extract_person_name (ch_name B) = Some b"
    and "extract_person_name (ch_name C) = Some c"
    and "distinct [a, b, c]"
    and "get_kpi_data_from_channel e A limit = Some (Inr ra)"
    and "get_kpi_data_from_channel e C limit = Some (Inr rc)"
    and "0 < limit"
    and "conversations_history e (ch_id B) (min limit 200) None = Inl SlackApiError"
    and "\<forall>name data w. fst (write_data sh name data w)"
  shows "get_all_individual_kpi_data e limit = Some (Inr [(a, ra), (b, []), (c, rc)])
     \<and> map_option (map_sum id fst) (sync_all_individual_kpi e sh limit details w)
         = Some (Inr \<lparr>channels_processed = 3,
                      messages_synced = (if details then length ra + length rc else 0),
                      errors = 0\<rparr>)"
  using sync_three_channels[OF assms] by simp

theorem sync_partial_failure_witness:
  "get_individual_channels scenario_env = Some (Inr [chan_a, chan_b, chan_c])
   \<and> distinct [[97], [98], [99 :: nat]]
   \<and> (0 :: int) < 100
   \<and> conversations_history scenario_env (ch_id chan_b) (min 100 200) None = Inl SlackApiError
   \<and> (\<forall>name data w. fst (write_data scenario_sheets name data w))
   \<and> get_all_individual_kpi_data scenario_env 100
       = Some (Inr [([97], [record_of chan_a [97]]), ([98], []), ([99], [record_of chan_c [99]])])
   \<and> map_option (map_sum id fst) (sync_all_individual_kpi scenario_env scenario_sheets 100 False [])
       = Some (Inr \<lparr>channels_processed = 3, messages_synced = 0, errors = 0\<rparr>)"
proof -
  have d: "distinct [[97], [98], [99 :: nat]]" by simp
  have l: "(0 :: int) < 100" by simp
  from sync_partial_failure[OF scenario_channels scenario_names d scenario_fetch_a
      scenario_fetch_c l scenario_fetch_b scenario_writes, of False "[]"]
    scenario_channels d l scenario_fetch_b scenario_writes
  show ?thesis by simp
qed

end
